theory Spec2Isabelle
  imports Main "HOL-Library.Sublist"
begin

section \<open>JavaScript strings and numbers\<close>

text \<open>
  A string is a \<^typ>\<open>string\<close> that holds the text in UTF-8; the functions below are the
  String methods that \<^verbatim>\<open>renderer.ts\<close> calls. The program asks a string only whether
  it is empty, where an ASCII pattern stands in it, and for the parts before and after
  such a place, and these agree on UTF-8 bytes and on UTF-16 code units.
\<close>

text \<open>
  The white space of \<^verbatim>\<open>trim\<close> and \<^verbatim>\<open>parseInt\<close>: the code points of WhiteSpace and
  LineTerminator in ECMAScript (U+0009 to U+000D, U+0020, U+00A0, U+1680, U+2000 to U+200A,
  U+2028, U+2029, U+202F, U+205F, U+3000, U+FEFF), each in UTF-8.
\<close>

definition whiteSpaces :: "string list" where
  "whiteSpaces =
     [[CHR 0x09], [CHR 0x0A], [CHR 0x0B], [CHR 0x0C], [CHR 0x0D], [CHR 0x20],
      [CHR 0xC2, CHR 0xA0], [CHR 0xE1, CHR 0x9A, CHR 0x80],
      [CHR 0xE2, CHR 0x80, CHR 0x80], [CHR 0xE2, CHR 0x80, CHR 0x81],
      [CHR 0xE2, CHR 0x80, CHR 0x82], [CHR 0xE2, CHR 0x80, CHR 0x83],
      [CHR 0xE2, CHR 0x80, CHR 0x84], [CHR 0xE2, CHR 0x80, CHR 0x85],
      [CHR 0xE2, CHR 0x80, CHR 0x86], [CHR 0xE2, CHR 0x80, CHR 0x87],
      [CHR 0xE2, CHR 0x80, CHR 0x88], [CHR 0xE2, CHR 0x80, CHR 0x89],
      [CHR 0xE2, CHR 0x80, CHR 0x8A], [CHR 0xE2, CHR 0x80, CHR 0xA8],
      [CHR 0xE2, CHR 0x80, CHR 0xA9], [CHR 0xE2, CHR 0x80, CHR 0xAF],
      [CHR 0xE2, CHR 0x81, CHR 0x9F], [CHR 0xE3, CHR 0x80, CHR 0x80],
      [CHR 0xEF, CHR 0xBB, CHR 0xBF]]"

text \<open>Taking away, from the front, every leading occurrence of one of the words \<open>ws\<close>.\<close>

fun dropLeading :: "string list \<Rightarrow> string \<Rightarrow> string" where
  "dropLeading ws [] = []"
| "dropLeading ws (c # s) =
     (case find (\<lambda>w. w \<noteq> [] \<and> prefix w (c # s)) ws of
        None \<Rightarrow> c # s
      | Some w \<Rightarrow> dropLeading ws (drop (length w - 1) s))"

definition trim :: "string \<Rightarrow> string" where
  "trim s = rev (dropLeading (map rev whiteSpaces) (rev (dropLeading whiteSpaces s)))"

definition startsWith :: "string \<Rightarrow> string \<Rightarrow> bool" where
  "startsWith s p = prefix p s"

text \<open>\<^verbatim>\<open>s.indexOf(pat)\<close>: the index of the first occurrence of \<open>pat\<close>, or \<open>-1\<close>.\<close>

fun indexOf_from :: "nat \<Rightarrow> string \<Rightarrow> string \<Rightarrow> int" where
  "indexOf_from i [] pat = (if pat = [] then int i else - 1)"
| "indexOf_from i (c # s) pat =
     (if prefix pat (c # s) then int i else indexOf_from (Suc i) s pat)"

definition indexOf :: "string \<Rightarrow> string \<Rightarrow> int" where
  "indexOf s pat = indexOf_from 0 s pat"

text \<open>\<^verbatim>\<open>s.substr(0, i)\<close> and \<^verbatim>\<open>s.substring(i)\<close> for \<open>0 \<le> i\<close>.\<close>

definition substr0 :: "string \<Rightarrow> int \<Rightarrow> string" where
  "substr0 s i = take (nat i) s"

definition substring :: "string \<Rightarrow> int \<Rightarrow> string" where
  "substring s i = drop (nat i) s"

text \<open>
  \<^verbatim>\<open>s.replace(pat, rep)\<close> with a string pattern: only the first occurrence of
  \<open>pat\<close> is replaced, wherever it stands.
\<close>

fun replace :: "string \<Rightarrow> string \<Rightarrow> string \<Rightarrow> string" where
  "replace [] pat rep = (if pat = [] then rep else [])"
| "replace (c # s) pat rep =
     (if prefix pat (c # s) then rep @ drop (length pat) (c # s) else c # replace s pat rep)"

definition toLowerChar :: "char \<Rightarrow> char" where
  "toLowerChar c =
     (let n = (of_char c :: nat) in if 65 \<le> n \<and> n \<le> 90 then char_of (n + 32) else c)"

definition toLowerCase :: "string \<Rightarrow> string" where
  "toLowerCase s = map toLowerChar s"

text \<open>
  The numbers the program meets are integers held in doubles, the infinities and
  \<^verbatim>\<open>NaN\<close>; \<open>Num 0\<close> stands for both zeros, which the program does not tell apart.
\<close>

datatype number = NaN | Num int | Infinity | NegInfinity

text \<open>
  The double of a natural number: itself up to 53 bits, beyond that the nearest number
  with 53 significant bits, the even one on a tie; \<open>None\<close> from \<open>2^1024\<close> on, where
  the double is infinite.
\<close>

fun bitLength :: "nat \<Rightarrow> nat" where
  "bitLength n = (if n = 0 then 0 else Suc (bitLength (n div 2)))"

declare bitLength.simps [simp del]

definition roundDouble :: "nat \<Rightarrow> nat option" where
  "roundDouble m =
     (if bitLength m \<le> 53 then Some m
      else (let sh = bitLength m - 53;
                q = m div 2 ^ sh;
                r = m mod 2 ^ sh;
                q' = (if r > 2 ^ (sh - 1) \<or> (r = 2 ^ (sh - 1) \<and> odd q) then q + 1 else q)
            in if q' * 2 ^ sh \<ge> 2 ^ 1024 then None else Some (q' * 2 ^ sh)))"

definition toNumber :: "int \<Rightarrow> number" where
  "toNumber i =
     (case roundDouble (nat \<bar>i\<bar>) of
        None \<Rightarrow> if i < 0 then NegInfinity else Infinity
      | Some v \<Rightarrow> Num (if i < 0 then - int v else int v))"

text \<open>
  \<^verbatim>\<open>parseInt(s)\<close> without a radix: leading white space is skipped, a sign is read, a
  \<^verbatim>\<open>0x\<close> prefix selects radix 16, and the longest prefix of digits is read as an
  integer, of which the result is the double (the engine rounds correctly); without a
  digit the result is \<^verbatim>\<open>NaN\<close>.
\<close>

definition digitValue :: "char \<Rightarrow> nat option" where
  "digitValue c =
     (let n = (of_char c :: nat) in
      if 48 \<le> n \<and> n \<le> 57 then Some (n - 48)
      else if 97 \<le> n \<and> n \<le> 122 then Some (n - 87)
      else if 65 \<le> n \<and> n \<le> 90 then Some (n - 55)
      else None)"

definition isDigit :: "nat \<Rightarrow> char \<Rightarrow> bool" where
  "isDigit R c = (case digitValue c of None \<Rightarrow> False | Some d \<Rightarrow> d < R)"

definition digitsValue :: "nat \<Rightarrow> string \<Rightarrow> nat" where
  "digitsValue R Z = foldl (\<lambda>a c. a * R + the (digitValue c)) 0 Z"

definition parseInt :: "string \<Rightarrow> number" where
  "parseInt inputString =
     (let S = dropLeading whiteSpaces inputString;
          sign = (if startsWith S ''-'' then - 1 else 1 :: int);
          S1 = (if startsWith S ''+'' \<or> startsWith S ''-'' then tl S else S);
          hex = (startsWith S1 ''0x'' \<or> startsWith S1 ''0X'');
          R = (if hex then 16 else 10);
          S2 = (if hex then drop 2 S1 else S1);
          Z = takeWhile (isDigit R) S2
      in if Z = [] then NaN else toNumber (sign * int (digitsValue R Z)))"

text \<open>
  Truthiness of a number that may be \<^verbatim>\<open>undefined\<close> (\<open>None\<close>): \<^verbatim>\<open>undefined\<close>,
  \<^verbatim>\<open>NaN\<close> and zero are false.
\<close>

definition truthy :: "number option \<Rightarrow> bool" where
  "truthy v = (case v of None \<Rightarrow> False | Some n \<Rightarrow> n \<noteq> NaN \<and> n \<noteq> Num 0)"

text \<open>\<^verbatim>\<open>v || ''\<close> for a string that may be \<^verbatim>\<open>null\<close>.\<close>

definition orEmpty :: "string option \<Rightarrow> string" where
  "orEmpty v = (case v of None \<Rightarrow> [] | Some s \<Rightarrow> s)"

text \<open>A template literal prints \<^verbatim>\<open>null\<close> as the four letters.\<close>

definition template :: "string option \<Rightarrow> string" where
  "template v = (case v of None \<Rightarrow> ''null'' | Some s \<Rightarrow> s)"

section \<open>The document\<close>

text \<open>
  An element carries its tag (lower case, as the HTML DOM stores it), its attributes in
  order, and what the layout engine knows of it and the scripts read: the natural size of
  an image and whether the element has an \<^verbatim>\<open>offsetParent\<close>. A document is the list
  of the children of its Document node.
\<close>

record layout =
  naturalWidth :: nat
  naturalHeight :: nat
  offsetParent :: bool

datatype node =
    Element (tagName: string) (attributes: "(string \<times> string) list") (box: layout)
      (childNodes: "node list")
  | Text (data: string)

type_synonym document = "node list"

definition getAttribute :: "node \<Rightarrow> string \<Rightarrow> string option" where
  "getAttribute e n = (case e of Element t as l cs \<Rightarrow> map_of as n | Text s \<Rightarrow> None)"

text \<open>
  \<^verbatim>\<open>setAttribute\<close> overwrites the first attribute of that name, or appends one.
\<close>

fun setAttr :: "(string \<times> string) list \<Rightarrow> string \<Rightarrow> string \<Rightarrow> (string \<times> string) list" where
  "setAttr [] n v = [(n, v)]"
| "setAttr ((k, w) # as) n v = (if k = n then (k, v) # as else (k, w) # setAttr as n v)"

fun setAttribute :: "node \<Rightarrow> string \<Rightarrow> string \<Rightarrow> node" where
  "setAttribute (Element t as l cs) n v = Element t (setAttr as n v) l cs"
| "setAttribute (Text s) n v = Text s"

subsection \<open>Selectors\<close>

text \<open>
  The selectors of \<^verbatim>\<open>renderer.ts\<close> are lists of compound selectors, each a tag name
  with attribute tests: \<^verbatim>\<open>[a]\<close>, \<^verbatim>\<open>:not([a])\<close>, \<^verbatim>\<open>[a=v]\<close> and \<^verbatim>\<open>[a*=v]\<close>.
  In an HTML document the values of \<^verbatim>\<open>type\<close> and \<^verbatim>\<open>rel\<close> are compared without
  regard to ASCII case; those of \<^verbatim>\<open>name\<close> and \<^verbatim>\<open>property\<close> exactly.
\<close>

datatype attr_test =
    Present string
  | Absent string
  | Equals string string
  | Contains string string

datatype compound = Compound string "attr_test list"

type_synonym selector = "compound list"

definition foldCase :: "string \<Rightarrow> string \<Rightarrow> string" where
  "foldCase n v = (if n = ''type'' \<or> n = ''rel'' then toLowerCase v else v)"

fun attr_holds :: "(string \<times> string) list \<Rightarrow> attr_test \<Rightarrow> bool" where
  "attr_holds as (Present n) = (map_of as n \<noteq> None)"
| "attr_holds as (Absent n) = (map_of as n = None)"
| "attr_holds as (Equals n v) =
     (case map_of as n of None \<Rightarrow> False | Some w \<Rightarrow> foldCase n w = foldCase n v)"
| "attr_holds as (Contains n v) =
     (case map_of as n of None \<Rightarrow> False
      | Some w \<Rightarrow> v \<noteq> [] \<and> indexOf (foldCase n w) (foldCase n v) \<noteq> - 1)"

fun matches_compound :: "compound \<Rightarrow> node \<Rightarrow> bool" where
  "matches_compound (Compound t ts) (Element tag as l cs) =
     (tag = t \<and> list_all (attr_holds as) ts)"
| "matches_compound (Compound t ts) (Text s) = False"

definition matches :: "selector \<Rightarrow> node \<Rightarrow> bool" where
  "matches sel n = list_ex (\<lambda>c. matches_compound c n) sel"

text \<open>The elements of a subtree in tree order, the root first.\<close>

fun elements :: "node \<Rightarrow> node list" where
  "elements (Text s) = []"
| "elements (Element t as l cs) = Element t as l cs # concat (map elements cs)"

text \<open>
  \<^verbatim>\<open>querySelectorAll\<close> on a context node whose children are \<open>ns\<close> (the document, or an
  element): the matching descendants in tree order. \<^verbatim>\<open>querySelector\<close> is the first.
\<close>

definition querySelectorAll :: "selector \<Rightarrow> node list \<Rightarrow> node list" where
  "querySelectorAll sel ns = filter (matches sel) (concat (map elements ns))"

definition querySelector :: "selector \<Rightarrow> node list \<Rightarrow> node option" where
  "querySelector sel ns = (case querySelectorAll sel ns of [] \<Rightarrow> None | e # es \<Rightarrow> Some e)"

definition getElementsByTagName :: "string \<Rightarrow> node list \<Rightarrow> node list" where
  "getElementsByTagName t ns = querySelectorAll [Compound t []] ns"

definition meta_name :: "string \<Rightarrow> selector" where
  "meta_name n = [Compound ''meta'' [Equals ''name'' n]]"

definition meta_property :: "string \<Rightarrow> selector" where
  "meta_property n = [Compound ''meta'' [Equals ''property'' n]]"

definition link_rel :: "string \<Rightarrow> selector" where
  "link_rel n = [Compound ''link'' [Equals ''rel'' n]]"

subsection \<open>Properties read by the scripts\<close>

text \<open>\<^verbatim>\<open>HTMLMetaElement.content\<close>: the attribute, or the empty string.\<close>

definition content_of :: "node \<Rightarrow> string" where
  "content_of e = (case getAttribute e ''content'' of None \<Rightarrow> [] | Some v \<Rightarrow> v)"

fun textContent :: "node \<Rightarrow> string" where
  "textContent (Text s) = s"
| "textContent (Element t as l cs) = concat (map textContent cs)"

fun isElement :: "node \<Rightarrow> bool" where
  "isElement (Element t as l cs) = True"
| "isElement (Text s) = False"

definition childElementCount :: "node \<Rightarrow> nat" where
  "childElementCount e =
     (case e of Element t as l cs \<Rightarrow> length (filter isElement cs) | Text s \<Rightarrow> 0)"

definition hasOffsetParent :: "node \<Rightarrow> bool" where
  "hasOffsetParent e = (case e of Element t as l cs \<Rightarrow> offsetParent l | Text s \<Rightarrow> False)"

definition natWidth :: "node \<Rightarrow> nat" where
  "natWidth e = (case e of Element t as l cs \<Rightarrow> naturalWidth l | Text s \<Rightarrow> 0)"

definition natHeight :: "node \<Rightarrow> nat" where
  "natHeight e = (case e of Element t as l cs \<Rightarrow> naturalHeight l | Text s \<Rightarrow> 0)"

text \<open>
  \<^verbatim>\<open>document.title\<close>: the text children of the first \<^verbatim>\<open>title\<close> element, with ASCII
  white space stripped and collapsed; empty when there is no such element.
\<close>

definition htmlSpace :: "char \<Rightarrow> bool" where
  "htmlSpace c = (c \<in> set [CHR 0x09, CHR 0x0A, CHR 0x0C, CHR 0x0D, CHR 0x20])"

fun collapse :: "bool \<Rightarrow> string \<Rightarrow> string" where
  "collapse pending [] = []"
| "collapse pending (c # s) =
     (if htmlSpace c then collapse True s
      else (if pending then [CHR 0x20] else []) @ c # collapse False s)"

definition stripAndCollapse :: "string \<Rightarrow> string" where
  "stripAndCollapse s = collapse False (dropWhile htmlSpace s)"

fun childText :: "node list \<Rightarrow> string" where
  "childText [] = []"
| "childText (Text s # ns) = s @ childText ns"
| "childText (Element t as l cs # ns) = childText ns"

definition document_title :: "document \<Rightarrow> string" where
  "document_title d =
     (case querySelector [Compound ''title'' []] d of
        None \<Rightarrow> []
      | Some e \<Rightarrow> stripAndCollapse (childText (childNodes e)))"

section \<open>The platform\<close>

text \<open>
  What the program takes from its platform and this development leaves open: the WHATWG
  \<^verbatim>\<open>URL\<close> class (\<open>None\<close> where the constructor throws a TypeError), the host that
  Node's \<^verbatim>\<open>url.parse\<close> finds, the absolute form in which a URL attribute is
  reflected by \<^verbatim>\<open>href\<close> and \<^verbatim>\<open>src\<close>, the serialisation of markup, and the global
  variable \<^verbatim>\<open>uri\<close> of the page (\<open>None\<close> when the page declares none, as pages do).
\<close>

record platform =
  URL_hostname :: "string \<Rightarrow> string option"
  URL_origin :: "string \<Rightarrow> string option"
  url_parse_host :: "string \<Rightarrow> string option"
  reflectURL :: "string \<Rightarrow> string"
  innerHTML :: "node list \<Rightarrow> string"
  page_content :: "document \<Rightarrow> string"
  global_uri :: "string option"

text \<open>
  \<^verbatim>\<open>url.parse(u).protocol\<close>: Node matches \<^verbatim>\<open>/^[a-z0-9.+-]+:/i\<close> against the
  trimmed string and lower-cases the match; without a match the field is \<^verbatim>\<open>null\<close>.
\<close>

definition isProtocolChar :: "char \<Rightarrow> bool" where
  "isProtocolChar c =
     (let n = (of_char c :: nat) in
      (97 \<le> n \<and> n \<le> 122) \<or> (65 \<le> n \<and> n \<le> 90) \<or> (48 \<le> n \<and> n \<le> 57)
      \<or> c = CHR ''.'' \<or> c = CHR ''+'' \<or> c = CHR ''-'')"

definition url_parse_protocol :: "string \<Rightarrow> string option" where
  "url_parse_protocol u =
     (let rest = trim u; p = takeWhile isProtocolChar rest
      in if p \<noteq> [] \<and> startsWith (drop (length p) rest) '':''
         then Some (toLowerCase p @ '':'') else None)"

definition href_of :: "platform \<Rightarrow> node \<Rightarrow> string" where
  "href_of P e = (case getAttribute e ''href'' of None \<Rightarrow> [] | Some v \<Rightarrow> reflectURL P v)"

definition src_of :: "platform \<Rightarrow> node \<Rightarrow> string" where
  "src_of P e = (case getAttribute e ''src'' of None \<Rightarrow> [] | Some v \<Rightarrow> reflectURL P v)"

section \<open>Failures\<close>

text \<open>
  \<^verbatim>\<open>TypeError\<close> is what a script raises when it reads a property of \<^verbatim>\<open>null\<close> or
  \<^verbatim>\<open>undefined\<close> and what \<^verbatim>\<open>new URL\<close> raises on a string that is no URL;
  \<^verbatim>\<open>ReferenceError\<close> is what it raises when it reads a variable that is not declared;
  \<^verbatim>\<open>ScreenshotError\<close> is the class the module declares.
\<close>

datatype ErrorType = Forbidden | NoResponse

datatype failure = TypeError | ReferenceError | ScreenshotError ErrorType

section \<open>The content sanitizer\<close>

definition strip_selector :: selector where
  "strip_selector =
     [Compound ''script'' [Absent ''type''],
      Compound ''script'' [Contains ''type'' ''javascript''],
      Compound ''link'' [Equals ''rel'' ''import'']]"

text \<open>Removing every element a selector matches, each with its subtree.\<close>

fun remove_matching :: "selector \<Rightarrow> node \<Rightarrow> node" where
  "remove_matching sel (Text s) = Text s"
| "remove_matching sel (Element t as l cs) =
     Element t as l (map (remove_matching sel) (filter (\<lambda>c. \<not> matches sel c) cs))"

definition remove_all :: "selector \<Rightarrow> node list \<Rightarrow> node list" where
  "remove_all sel ns = map (remove_matching sel) (filter (\<lambda>c. \<not> matches sel c) ns)"

definition stripPage :: "document \<Rightarrow> document" where
  "stripPage d = remove_all strip_selector d"

text \<open>No element of a subtree is matched by the selector.\<close>

fun clean :: "selector \<Rightarrow> node \<Rightarrow> bool" where
  "clean sel (Text s) = True"
| "clean sel (Element t as l cs) =
     (\<not> matches sel (Element t as l cs) \<and> (\<forall>c \<in> set cs. clean sel c))"

definition hasTag :: "string \<Rightarrow> node \<Rightarrow> bool" where
  "hasTag t n = (case n of Element tag as l cs \<Rightarrow> tag = t | Text s \<Rightarrow> False)"

definition createElement :: "string \<Rightarrow> node" where
  "createElement t =
     Element t [] \<lparr>naturalWidth = 0, naturalHeight = 0, offsetParent = False\<rparr> []"

text \<open>
  \<^verbatim>\<open>document.head\<close>: the first \<^verbatim>\<open>head\<close> child of the document element when that
  is an \<^verbatim>\<open>html\<close> element, else \<^verbatim>\<open>null\<close>.
\<close>

definition document_head :: "document \<Rightarrow> node option" where
  "document_head d =
     (case find isElement d of
        None \<Rightarrow> None
      | Some r \<Rightarrow> if hasTag ''html'' r then find (hasTag ''head'') (childNodes r) else None)"

text \<open>Rewriting the first node of a list that satisfies \<open>p\<close>.\<close>

fun update_first :: "(node \<Rightarrow> bool) \<Rightarrow> (node \<Rightarrow> node) \<Rightarrow> node list \<Rightarrow> node list" where
  "update_first p f [] = []"
| "update_first p f (n # ns) = (if p n then f n # ns else n # update_first p f ns)"

fun with_children :: "(node list \<Rightarrow> node list) \<Rightarrow> node \<Rightarrow> node" where
  "with_children g (Element t as l cs) = Element t as l (g cs)"
| "with_children g (Text s) = Text s"

definition update_head :: "(node list \<Rightarrow> node list) \<Rightarrow> document \<Rightarrow> document" where
  "update_head g d =
     update_first isElement (with_children (update_first (hasTag ''head'') (with_children g))) d"

text \<open>
  Rewriting the first element in tree order below a context node that satisfies \<open>p\<close>;
  \<open>None\<close> when there is none.
\<close>

fun patch_first :: "(node \<Rightarrow> bool) \<Rightarrow> (node \<Rightarrow> node) \<Rightarrow> node list \<Rightarrow> node list option" where
  "patch_first p f [] = None"
| "patch_first p f (Text s # ns) = map_option ((#) (Text s)) (patch_first p f ns)"
| "patch_first p f (Element t as l cs # ns) =
     (if p (Element t as l cs) then Some (f (Element t as l cs) # ns)
      else (case patch_first p f cs of
              Some cs' \<Rightarrow> Some (Element t as l cs' # ns)
            | None \<Rightarrow> map_option ((#) (Element t as l cs)) (patch_first p f ns)))"

definition injectBaseHref :: "string \<Rightarrow> document \<Rightarrow> failure + document" where
  "injectBaseHref origin d =
     (let base = setAttribute (createElement ''base'') ''href'' origin
      in case document_head d of
           None \<Rightarrow> Inl TypeError
         | Some head \<Rightarrow>
             (case querySelectorAll [Compound ''base'' []] (childNodes head) of
                b0 # bs \<Rightarrow>
                  (let existingBase = orEmpty (getAttribute b0 ''href'')
                   in if startsWith existingBase ''/''
                      then Inr (update_head
                             (\<lambda>cs. case patch_first (hasTag ''base'')
                                      (\<lambda>b. setAttribute b ''href'' (origin @ existingBase)) cs of
                                     None \<Rightarrow> cs | Some cs' \<Rightarrow> cs') d)
                      else Inr d)
              | [] \<Rightarrow> Inr (update_head (\<lambda>cs. base # cs) d)))"

text \<open>The origin \<^verbatim>\<open>serialize\<close> passes: \<^verbatim>\<open>`${parsedUrl.protocol}//${parsedUrl.host}`\<close>.\<close>

definition request_origin :: "platform \<Rightarrow> string \<Rightarrow> string" where
  "request_origin P requestUrl =
     template (url_parse_protocol requestUrl) @ ''//'' @ template (url_parse_host P requestUrl)"

text \<open>The two sanitizer steps in the order \<^verbatim>\<open>serialize\<close> runs them.\<close>

definition sanitize :: "string \<Rightarrow> document \<Rightarrow> failure + document" where
  "sanitize origin d = injectBaseHref origin (stripPage d)"

section \<open>The metadata extractor\<close>

text \<open>
  Each extractor is the script that \<^verbatim>\<open>page.evaluate\<close> runs against the loaded
  document. A script that reads a property of \<^verbatim>\<open>null\<close> or \<^verbatim>\<open>undefined\<close> raises
  a TypeError, which rejects the promise of the extractor. \<^verbatim>\<open>page.evaluate\<close> sends
  the text of the script to the page and passes the arguments listed after it; the
  extractors list none, so a variable of the Node side that a script names is, in the
  page, a global variable of the page.
\<close>

text \<open>The test \<^verbatim>\<open>e != null && e.prop.length > 0\<close>.\<close>

definition nonEmpty :: "(node \<Rightarrow> string) \<Rightarrow> node option \<Rightarrow> bool" where
  "nonEmpty prop e = (case e of None \<Rightarrow> False | Some x \<Rightarrow> length (prop x) > 0)"

text \<open>The filter of \<^verbatim>\<open>getImg\<close>; natural sizes are 32-bit, so the quotients compare exactly.\<close>

definition addImg :: "node \<Rightarrow> bool" where
  "addImg img =
     (let a1 = (if natWidth img > natHeight img
                then \<not> (natWidth img > 3 * natHeight img)
                else \<not> (natHeight img > 3 * natWidth img))
      in if natHeight img \<le> 50 \<or> natWidth img \<le> 50 then False else a1)"

text \<open>
  The \<^verbatim>\<open>forEach\<close> over the surviving images: a source without \<^verbatim>\<open>//\<close> is set to
  \<^verbatim>\<open>`${new URL(uri).origin}/${img.src}`\<close>, where \<^verbatim>\<open>uri\<close> is read in the page: the
  parameter \<^verbatim>\<open>uri\<close> of \<^verbatim>\<open>getImg\<close> is not passed to \<^verbatim>\<open>page.evaluate\<close>, so the
  script raises a ReferenceError unless the page has a global variable of that name.
  The result is the list of the sources as \<^verbatim>\<open>src\<close> reads them afterwards.
\<close>

fun rewrite_sources :: "platform \<Rightarrow> node list \<Rightarrow> failure + string list" where
  "rewrite_sources P [] = Inr []"
| "rewrite_sources P (img # imgs) =
     (if indexOf (src_of P img) ''//'' = - 1
      then (case global_uri P of
              None \<Rightarrow> Inl ReferenceError
            | Some uri \<Rightarrow>
                (case URL_origin P uri of
                   None \<Rightarrow> Inl TypeError
                 | Some origin \<Rightarrow>
                     (case rewrite_sources P imgs of
                        Inl e \<Rightarrow> Inl e
                      | Inr srcs \<Rightarrow>
                          Inr (reflectURL P (origin @ ''/'' @ src_of P img) # srcs))))
      else (case rewrite_sources P imgs of
              Inl e \<Rightarrow> Inl e
            | Inr srcs \<Rightarrow> Inr (src_of P img # srcs)))"

definition getImg :: "platform \<Rightarrow> document \<Rightarrow> string \<Rightarrow> failure + string option" where
  "getImg P d uri =
     (let ogImg = querySelector (meta_property ''og:image'') d
      in if nonEmpty content_of ogImg then Inr (Some (content_of (the ogImg)))
      else let imgRelLink = querySelector (link_rel ''image_src'') d
      in if nonEmpty (href_of P) imgRelLink then Inr (Some (href_of P (the imgRelLink)))
      else let twitterImg = querySelector (meta_name ''twitter:image'') d
      in if nonEmpty content_of twitterImg then Inr (Some (content_of (the twitterImg)))
      else let imgs = getElementsByTagName ''img'' d
      in if length imgs > 0
         then (case rewrite_sources P (filter addImg imgs) of
                 Inl e \<Rightarrow> Inl e
               | Inr [] \<Rightarrow> Inl TypeError
               | Inr (src0 # srcs) \<Rightarrow> Inr (Some src0))
         else Inr None)"

definition getTitle :: "platform \<Rightarrow> document \<Rightarrow> failure + string option" where
  "getTitle P d =
     (let ogTitle = querySelector (meta_property ''og:title'') d
      in if nonEmpty content_of ogTitle then Inr (Some (content_of (the ogTitle)))
      else let twitterTitle = querySelector (meta_name ''twitter:title'') d
      in if nonEmpty content_of twitterTitle then Inr (Some (content_of (the twitterTitle)))
      else let docTitle = document_title d
      in if length docTitle > 0 then Inr (Some docTitle)
      else (case querySelector [Compound ''h1'' []] d of
              None \<Rightarrow> Inl TypeError
            | Some e1 \<Rightarrow>
                (let h1 = innerHTML P (childNodes e1)
                 in if length h1 > 0 then Inr (Some h1)
                    else (case querySelector [Compound ''h1'' []] d of
                            None \<Rightarrow> Inl TypeError
                          | Some e2 \<Rightarrow>
                              (let h2 = innerHTML P (childNodes e2)
                               in if length h2 > 0 then Inr (Some h2) else Inr None)))))"

definition getDescription :: "document \<Rightarrow> string option" where
  "getDescription d =
     (let ogDescription = querySelector (meta_property ''og:description'') d
      in if nonEmpty content_of ogDescription then Some (content_of (the ogDescription))
      else let twitterDescription = querySelector (meta_name ''twitter:description'') d
      in if nonEmpty content_of twitterDescription
         then Some (content_of (the twitterDescription))
      else let metaDescription = querySelector (meta_name ''description'') d
      in if nonEmpty content_of metaDescription then Some (content_of (the metaDescription))
      else let paragraphs = querySelectorAll [Compound ''p'' []] d
      in map_option textContent
           (find (\<lambda>p. hasOffsetParent p \<and> childElementCount p \<noteq> 0) paragraphs))"

text \<open>
  The URL whose host names the domain: the canonical link, else the Open-Graph url,
  else \<^verbatim>\<open>null\<close>, for which \<^verbatim>\<open>getDomainName\<close> takes the requested URL.
\<close>

definition domainName :: "platform \<Rightarrow> document \<Rightarrow> string option" where
  "domainName P d =
     (let canonicalLink = querySelector (link_rel ''canonical'') d
      in if nonEmpty (href_of P) canonicalLink then Some (href_of P (the canonicalLink))
      else let ogUrlMeta = querySelector (meta_property ''og:url'') d
      in if nonEmpty content_of ogUrlMeta then Some (content_of (the ogUrlMeta))
      else None)"

definition getDomainName :: "platform \<Rightarrow> document \<Rightarrow> string \<Rightarrow> failure + string" where
  "getDomainName P d uri =
     (case URL_hostname P (case domainName P d of Some u \<Rightarrow> u | None \<Rightarrow> uri) of
        None \<Rightarrow> Inl TypeError
      | Some hostname \<Rightarrow> Inr (replace hostname ''www.'' []))"

section \<open>The status and header override protocol\<close>

text \<open>
  \<^verbatim>\<open>page.$eval\<close> rejects when the selector matches nothing, and \<^verbatim>\<open>.catch\<close> turns
  that into \<^verbatim>\<open>undefined\<close>, which is \<open>None\<close>; for the header the list holds the
  entries of the Map that travels as JSON.
\<close>

definition newStatusCode :: "document \<Rightarrow> number option" where
  "newStatusCode d =
     (case querySelector (meta_name ''render:status_code'') d of
        None \<Rightarrow> None
      | Some element \<Rightarrow> Some (parseInt (orEmpty (getAttribute element ''content''))))"

definition overrideStatus :: "int \<Rightarrow> number option \<Rightarrow> number" where
  "overrideStatus status0 new =
     (let statusCode = (if status0 = 304 then 200 else status0)
      in if statusCode = 200 \<and> truthy new then the new else Num statusCode)"

definition headerEntries :: "string option \<Rightarrow> (string \<times> string) list" where
  "headerEntries header =
     (case header of
        None \<Rightarrow> []
      | Some h \<Rightarrow>
          if h = [] then []
          else (let i = indexOf h '':''
                in if i \<noteq> - 1 then [(trim (substr0 h i), trim (substring h (i + 1)))] else []))"

definition evalCustomHeaders :: "document \<Rightarrow> (string \<times> string) list option" where
  "evalCustomHeaders d =
     (case querySelector (meta_name ''render:header'') d of
        None \<Rightarrow> None
      | Some element \<Rightarrow> Some (headerEntries (getAttribute element ''content'')))"

section \<open>The pipeline\<close>

text \<open>
  What one request meets in the browser: the responses that reach a
  \<^verbatim>\<open>response\<close> listener while \<^verbatim>\<open>page.goto\<close> runs, in order; how \<^verbatim>\<open>goto\<close>
  ends (it resolves with a response or with \<^verbatim>\<open>null\<close>, or it rejects, as on a
  timeout); the document as it stands when the wait is over; and the picture
  \<^verbatim>\<open>page.screenshot\<close> takes. The other calls of the engine are taken to succeed.
\<close>

record response =
  status :: int
  headers :: "(string \<times> string) list"

datatype navigation = Resolves "response option" | Rejects

record browser =
  responses :: "response list"
  goto :: navigation
  dom :: document
  picture :: "(string \<times> string) list \<Rightarrow> string"

record config =
  width :: nat
  height :: nat
  timeout :: nat

datatype rendered =
    SerializedResponse number "(string \<times> string) list" string
  | PreviewResponse number "string option" "string option" string "string option"

fun status_of :: "rendered \<Rightarrow> number" where
  "status_of (SerializedResponse s hs c) = s"
| "status_of (PreviewResponse s t de dm im) = s"

fun customHeaders_of :: "rendered \<Rightarrow> (string \<times> string) list option" where
  "customHeaders_of (SerializedResponse s hs c) = Some hs"
| "customHeaders_of (PreviewResponse s t de dm im) = None"

text \<open>The calls a run makes on the engine, which the pipeline returns as its trace.\<close>

datatype call =
    NewPage
  | SetViewport nat nat bool
  | SetUserAgent string
  | EvaluateOnNewDocument string
  | AddResponseListener
  | Goto string nat
  | QueryStatusCode
  | QueryHeader
  | GetTitle
  | GetDescription
  | GetDomainName
  | GetImg
  | StripPage
  | InjectBaseHref string
  | Content
  | Screenshot "(string \<times> string) list"
  | Close

definition MOBILE_USERAGENT :: string where
  "MOBILE_USERAGENT =
     ''Mozilla/5.0 (Linux; Android 8.0.0; Pixel 2 XL Build/OPD1.170816.004) AppleWebKit/537.36 (KHTML, like Gecko) Chrome/68.0.3440.75 Mobile Safari/537.36''"

definition isGoogle :: "response \<Rightarrow> bool" where
  "isGoogle r = (map_of (headers r) ''metadata-flavor'' = Some ''Google'')"

text \<open>
  The response \<^verbatim>\<open>serialize\<close> goes on with: the listener keeps the first response it
  sees, and the assignment from \<^verbatim>\<open>goto\<close> replaces it when \<^verbatim>\<open>goto\<close> resolves.
\<close>

definition captured :: "browser \<Rightarrow> response option" where
  "captured b =
     (let listened = (case responses b of [] \<Rightarrow> None | r # rs \<Rightarrow> Some r)
      in case goto b of Resolves r \<Rightarrow> r | Rejects \<Rightarrow> listened)"

definition open_serialize :: "config \<Rightarrow> string \<Rightarrow> bool \<Rightarrow> call list" where
  "open_serialize cfg requestUrl isMobile =
     [NewPage, SetViewport (width cfg) (height cfg) isMobile]
     @ (if isMobile then [SetUserAgent MOBILE_USERAGENT] else [])
     @ [EvaluateOnNewDocument ''customElements.forcePolyfill = true'',
        EvaluateOnNewDocument ''ShadyDOM = {force: true}'',
        EvaluateOnNewDocument ''ShadyCSS = {shimcssproperties: true}'',
        AddResponseListener,
        Goto requestUrl (timeout cfg)]"

definition preview_of ::
  "platform \<Rightarrow> document \<Rightarrow> string \<Rightarrow> number \<Rightarrow> (failure + rendered) \<times> call list" where
  "preview_of P d requestUrl statusCode =
     (case getTitle P d of
        Inl e \<Rightarrow> (Inl e, [GetTitle])
      | Inr title \<Rightarrow>
          (let description = getDescription d
           in case getDomainName P d requestUrl of
                Inl e \<Rightarrow> (Inl e, [GetTitle, GetDescription, GetDomainName])
              | Inr domain \<Rightarrow>
                  (case getImg P d requestUrl of
                     Inl e \<Rightarrow> (Inl e, [GetTitle, GetDescription, GetDomainName, GetImg])
                   | Inr img \<Rightarrow>
                       (Inr (PreviewResponse statusCode title description domain img),
                        [GetTitle, GetDescription, GetDomainName, GetImg, Close]))))"

definition content_of_page ::
  "platform \<Rightarrow> document \<Rightarrow> string \<Rightarrow> number \<Rightarrow> (string \<times> string) list option
     \<Rightarrow> (failure + rendered) \<times> call list" where
  "content_of_page P d requestUrl statusCode customHeaders =
     (let origin = request_origin P requestUrl
      in case injectBaseHref origin (stripPage d) of
           Inl e \<Rightarrow> (Inl e, [StripPage, InjectBaseHref origin])
         | Inr d' \<Rightarrow>
             (Inr (SerializedResponse statusCode
                     (case customHeaders of Some hs \<Rightarrow> hs | None \<Rightarrow> [])
                     (page_content P d')),
              [StripPage, InjectBaseHref origin, Content, Close]))"

definition serialize ::
  "platform \<Rightarrow> config \<Rightarrow> browser \<Rightarrow> string \<Rightarrow> bool \<Rightarrow> bool
     \<Rightarrow> (failure + rendered) \<times> call list" where
  "serialize P cfg b requestUrl isMobile preview =
     (let t0 = open_serialize cfg requestUrl isMobile
      in case captured b of
           None \<Rightarrow> (Inr (SerializedResponse (Num 400) [] []), t0 @ [Close])
         | Some r \<Rightarrow>
             if isGoogle r then (Inr (SerializedResponse (Num 403) [] []), t0 @ [Close])
             else (let statusCode = overrideStatus (status r) (newStatusCode (dom b));
                       customHeaders = evalCustomHeaders (dom b);
                       rest = (if preview
                               then preview_of P (dom b) requestUrl statusCode
                               else content_of_page P (dom b) requestUrl statusCode
                                      customHeaders)
                   in (fst rest, t0 @ [QueryStatusCode, QueryHeader] @ snd rest)))"

text \<open>
  \<^verbatim>\<open>Object.assign({}, options, {type: 'jpeg', encoding: 'binary'})\<close> on option bags
  kept as association lists.
\<close>

definition assign :: "(string \<times> string) list \<Rightarrow> (string \<times> string) list \<Rightarrow> (string \<times> string) list" where
  "assign target source = foldl (\<lambda>t (k, v). setAttr t k v) target source"

definition screenshot ::
  "config \<Rightarrow> browser \<Rightarrow> string \<Rightarrow> bool \<Rightarrow> nat \<times> nat \<Rightarrow> (string \<times> string) list option
     \<Rightarrow> (failure + string) \<times> call list" where
  "screenshot cfg b url isMobile dimensions options =
     (let t0 = [NewPage, SetViewport (fst dimensions) (snd dimensions) isMobile]
               @ (if isMobile then [SetUserAgent MOBILE_USERAGENT] else [])
               @ [Goto url (timeout cfg)];
          response = (case goto b of Resolves r \<Rightarrow> r | Rejects \<Rightarrow> None)
      in case response of
           None \<Rightarrow> (Inl (ScreenshotError NoResponse), t0 @ [Close])
         | Some r \<Rightarrow>
             if isGoogle r then (Inl (ScreenshotError Forbidden), t0 @ [Close])
             else (let screenshotOptions =
                         assign (assign [] (case options of None \<Rightarrow> [] | Some os \<Rightarrow> os))
                           [(''type'', ''jpeg''), (''encoding'', ''binary'')]
                   in (Inr (picture b screenshotOptions),
                       t0 @ [Screenshot screenshotOptions, Close])))"

text \<open>
  The calls that belong to the stages behind the navigation: the override protocol, the
  extractor, the sanitizer and the capture.
\<close>

fun past_navigation :: "call \<Rightarrow> bool" where
  "past_navigation QueryStatusCode = True"
| "past_navigation QueryHeader = True"
| "past_navigation GetTitle = True"
| "past_navigation GetDescription = True"
| "past_navigation GetDomainName = True"
| "past_navigation GetImg = True"
| "past_navigation StripPage = True"
| "past_navigation (InjectBaseHref origin) = True"
| "past_navigation Content = True"
| "past_navigation (Screenshot os) = True"
| "past_navigation c = False"

text \<open>A trace opens one page and closes one, and the closing is its last call.\<close>

definition closed_once :: "call list \<Rightarrow> bool" where
  "closed_once t = (count_list t NewPage = 1 \<and> count_list t Close = 1 \<and> last t = Close)"

section \<open>A platform and pages to run the pipeline on\<close>

text \<open>
  For absolute URLs of the shape \<^verbatim>\<open>scheme://host[:port][/path]\<close> without user
  information the functions below return what the WHATWG parser and \<^verbatim>\<open>url.parse\<close>
  return; URL attributes are taken to be absolute already, markup is printed without
  escaping, and the page declares no global \<^verbatim>\<open>uri\<close>. The general theorems do not
  depend on this platform.
\<close>

definition authority :: "string \<Rightarrow> (string \<times> string) option" where
  "authority u =
     (let scheme = takeWhile isProtocolChar u; rest = drop (length scheme) u
      in if scheme \<noteq> [] \<and> startsWith rest ''://''
         then Some (toLowerCase scheme,
                    toLowerCase (takeWhile (\<lambda>c. c \<notin> set ''/?#'') (drop 3 rest)))
         else None)"

fun outerHTML :: "node \<Rightarrow> string" where
  "outerHTML (Text s) = s"
| "outerHTML (Element t as l cs) =
     ''<'' @ t @ concat (map (\<lambda>(k, v). '' '' @ k @ ''='' @ [CHR 0x22] @ v @ [CHR 0x22]) as)
     @ ''>'' @ concat (map outerHTML cs) @ ''</'' @ t @ ''>''"

definition basic :: platform where
  "basic =
     \<lparr>URL_hostname =
        (\<lambda>u. map_option (\<lambda>(s, a). takeWhile (\<lambda>c. c \<noteq> CHR '':'') a) (authority u)),
      URL_origin = (\<lambda>u. map_option (\<lambda>(s, a). s @ ''://'' @ a) (authority u)),
      url_parse_host = (\<lambda>u. map_option snd (authority u)),
      reflectURL = (\<lambda>v. v),
      innerHTML = (\<lambda>ns. concat (map outerHTML ns)),
      page_content = (\<lambda>d. concat (map outerHTML d)),
      global_uri = None\<rparr>"

definition el :: "string \<Rightarrow> (string \<times> string) list \<Rightarrow> node list \<Rightarrow> node" where
  "el t as cs = Element t as \<lparr>naturalWidth = 0, naturalHeight = 0, offsetParent = True\<rparr> cs"

definition image :: "string \<Rightarrow> nat \<Rightarrow> nat \<Rightarrow> node" where
  "image src w h =
     Element ''img'' [(''src'', src)]
       \<lparr>naturalWidth = w, naturalHeight = h, offsetParent = True\<rparr> []"

definition page :: "node list \<Rightarrow> node list \<Rightarrow> document" where
  "page hs bs = [el ''html'' [] [el ''head'' [] hs, el ''body'' [] bs]]"

text \<open>A page with a title and a script, and one without any title or heading.\<close>

definition titled_page :: document where
  "titled_page =
     page [el ''title'' [] [Text ''Hello''], el ''script'' [] [Text ''run()'']]
          [el ''p'' [] [Text ''Some '', el ''b'' [] [Text ''text'']]]"

definition untitled_page :: document where
  "untitled_page = page [] [el ''p'' [] [Text ''Some text'']]"

text \<open>Pages that declare a status, and one that declares a header.\<close>

definition status_page :: "string \<Rightarrow> document" where
  "status_page c =
     page [el ''title'' [] [Text ''Hello''],
           el ''meta'' [(''name'', ''render:status_code''), (''content'', c)] []] []"

definition header_page :: "string \<Rightarrow> document" where
  "header_page c =
     page [el ''title'' [] [Text ''Hello''],
           el ''meta'' [(''name'', ''render:header''), (''content'', c)] []] []"

text \<open>A titled page whose only image is an icon of 40 by 40.\<close>

definition icon_page :: document where
  "icon_page =
     page [el ''title'' [] [Text ''Hello'']] [image ''https://example.com/icon.png'' 40 40]"

text \<open>A titled page whose Open-Graph url is the given one.\<close>

definition og_url_page :: "string \<Rightarrow> document" where
  "og_url_page u =
     page [el ''title'' [] [Text ''Hello''],
           el ''meta'' [(''property'', ''og:url''), (''content'', u)] []] []"

text \<open>A titled page with the given canonical link and Open-Graph url.\<close>

definition canonical_page :: "string \<Rightarrow> string \<Rightarrow> document" where
  "canonical_page c u =
     page [el ''title'' [] [Text ''Hello''],
           el ''meta'' [(''property'', ''og:url''), (''content'', u)] [],
           el ''link'' [(''rel'', ''canonical''), (''href'', c)] []] []"

text \<open>A titled page whose only image is large and has a source without \<^verbatim>\<open>//\<close>.\<close>

definition data_image_page :: document where
  "data_image_page =
     page [el ''title'' [] [Text ''Hello'']] [image ''data:image/png;base64,AAAA'' 200 80]"

text \<open>A page with a relative base and an import.\<close>

definition based_page :: document where
  "based_page =
     page [el ''link'' [(''rel'', ''import''), (''href'', ''/x.html'')] [],
           el ''base'' [(''href'', ''/app/'')] []]
          [el ''script'' [(''type'', ''application/json'')] [Text ''{}'']]"

definition ok :: "int \<Rightarrow> response" where
  "ok s = \<lparr>status = s, headers = [(''content-type'', ''text/html'')]\<rparr>"

definition metadata_response :: response where
  "metadata_response = \<lparr>status = 200, headers = [(''metadata-flavor'', ''Google'')]\<rparr>"

definition loaded :: "response \<Rightarrow> document \<Rightarrow> browser" where
  "loaded r d =
     \<lparr>responses = [r], goto = Resolves (Some r), dom = d, picture = (\<lambda>os. ''JPEG'')\<rparr>"

definition timed_out :: "response \<Rightarrow> document \<Rightarrow> browser" where
  "timed_out r d = \<lparr>responses = [r], goto = Rejects, dom = d, picture = (\<lambda>os. ''JPEG'')\<rparr>"

definition example_config :: config where
  "example_config = \<lparr>width = 1000, height = 1000, timeout = 10000\<rparr>"

section \<open>Navigation: the metadata guard\<close>

text \<open>
  C4. When the response the pipeline goes on with carries the header
  \<^verbatim>\<open>metadata-flavor: Google\<close>, \<^verbatim>\<open>serialize\<close> (in either mode) returns status 403
  with no custom headers and empty content, and \<^verbatim>\<open>screenshot\<close> fails with the
  ScreenshotError \<^verbatim>\<open>Forbidden\<close>. In both the page is closed right after the
  navigation and that is the last call: no call of the override protocol, the extractor,
  the sanitizer or the capture is made.
\<close>

theorem metadata_guard:
  "(captured b = Some r \<and> isGoogle r \<longrightarrow>
      serialize P cfg b url isMobile preview
        = (Inr (SerializedResponse (Num 403) [] []), open_serialize cfg url isMobile @ [Close])
      \<and> \<not> list_ex past_navigation (snd (serialize P cfg b url isMobile preview)))
   \<and> (goto b = Resolves (Some r) \<and> isGoogle r \<longrightarrow>
      screenshot cfg b url isMobile dimensions options
        = (Inl (ScreenshotError Forbidden),
           [NewPage, SetViewport (fst dimensions) (snd dimensions) isMobile]
           @ (if isMobile then [SetUserAgent MOBILE_USERAGENT] else [])
           @ [Goto url (timeout cfg), Close]))"
  by (simp add: serialize_def screenshot_def open_serialize_def Let_def)

theorem metadata_guard_witness:
  "captured (loaded metadata_response titled_page) = Some metadata_response
   \<and> goto (loaded metadata_response titled_page) = Resolves (Some metadata_response)
   \<and> isGoogle metadata_response
   \<and> fst (serialize basic example_config (loaded metadata_response titled_page)
            ''https://example.com/'' False True) = Inr (SerializedResponse (Num 403) [] [])
   \<and> last (snd (serialize basic example_config (loaded metadata_response titled_page)
            ''https://example.com/'' False True)) = Close
   \<and> screenshot example_config (loaded metadata_response titled_page)
            ''https://example.com/'' False (800, 600) None
       = (Inl (ScreenshotError Forbidden),
          [NewPage, SetViewport 800 600 False, Goto ''https://example.com/'' 10000, Close])"
proof -
  have c: "captured (loaded metadata_response titled_page) = Some metadata_response"
    by (simp add: captured_def loaded_def)
  have g: "goto (loaded metadata_response titled_page) = Resolves (Some metadata_response)"
    by (simp add: loaded_def)
  have i: "isGoogle metadata_response"
    by (simp add: isGoogle_def metadata_response_def)
  from metadata_guard [of "loaded metadata_response titled_page" metadata_response basic
      example_config "''https://example.com/''" False True "(800, 600)" None] c g i
  show ?thesis by (simp add: example_config_def)
qed

section \<open>Closing the page\<close>

lemma open_serialize_counts:
  "count_list (open_serialize cfg url isMobile) NewPage = 1"
  "count_list (open_serialize cfg url isMobile) Close = 0"
  by (simp_all add: open_serialize_def)

lemma preview_of_returns:
  "fst (preview_of P d url s) = Inr res \<Longrightarrow>
     snd (preview_of P d url s) = [GetTitle, GetDescription, GetDomainName, GetImg, Close]
     \<and> status_of res = s"
  by (auto simp: preview_of_def Let_def split: sum.splits)

lemma preview_of_fails:
  "fst (preview_of P d url s) = Inl e \<Longrightarrow> Close \<notin> set (snd (preview_of P d url s))"
  by (auto simp: preview_of_def Let_def split: sum.splits)

lemma content_of_page_returns:
  "fst (content_of_page P d url s hs) = Inr res \<Longrightarrow>
     snd (content_of_page P d url s hs)
       = [StripPage, InjectBaseHref (request_origin P url), Content, Close]
     \<and> status_of res = s"
  by (auto simp: content_of_page_def Let_def split: sum.splits)

lemma content_of_page_fails:
  "fst (content_of_page P d url s hs) = Inl e \<Longrightarrow>
     Close \<notin> set (snd (content_of_page P d url s hs))"
  by (auto simp: content_of_page_def Let_def split: sum.splits)

lemma serialize_returns:
  assumes "fst (serialize P cfg b url isMobile preview) = Inr res"
  shows "closed_once (snd (serialize P cfg b url isMobile preview))"
proof (cases "captured b")
  case None
  then show ?thesis
    by (simp add: serialize_def closed_once_def open_serialize_counts)
next
  case (Some r)
  show ?thesis
  proof (cases "isGoogle r")
    case True
    with Some show ?thesis
      by (simp add: serialize_def closed_once_def open_serialize_counts)
  next
    case False
    show ?thesis
    proof (cases preview)
      case True
      with Some False assms
      have "fst (preview_of P (dom b) url (overrideStatus (status r) (newStatusCode (dom b)))) = Inr res"
        by (simp add: serialize_def Let_def)
      from preview_of_returns [OF this] Some False True show ?thesis
        by (simp add: serialize_def Let_def closed_once_def open_serialize_counts)
    next
      case nopreview: False
      with Some False assms
      have "fst (content_of_page P (dom b) url (overrideStatus (status r) (newStatusCode (dom b))) (evalCustomHeaders (dom b))) = Inr res"
        by (simp add: serialize_def Let_def)
      from content_of_page_returns [OF this] Some False nopreview show ?thesis
        by (simp add: serialize_def Let_def closed_once_def open_serialize_counts)
    qed
  qed
qed

lemma screenshot_closed: "closed_once (snd (screenshot cfg b url isMobile dimensions options))"
  by (simp add: screenshot_def closed_once_def Let_def split: option.splits navigation.splits)

lemma serialize_fails:
  assumes "fst (serialize P cfg b url isMobile preview) = Inl e"
  shows "Close \<notin> set (snd (serialize P cfg b url isMobile preview))"
proof -
  from assms obtain r where c: "captured b = Some r" and g: "\<not> isGoogle r"
    by (auto simp: serialize_def Let_def split: option.splits if_splits)
  have o: "Close \<notin> set (open_serialize cfg url isMobile)"
    by (simp add: open_serialize_def)
  show ?thesis
  proof (cases preview)
    case True
    with assms c g
    have "fst (preview_of P (dom b) url (overrideStatus (status r) (newStatusCode (dom b)))) = Inl e"
      by (simp add: serialize_def Let_def)
    from preview_of_fails [OF this] c g True o show ?thesis
      by (simp add: serialize_def Let_def)
  next
    case False
    with assms c g
    have "fst (content_of_page P (dom b) url (overrideStatus (status r) (newStatusCode (dom b)))
                 (evalCustomHeaders (dom b))) = Inl e"
      by (simp add: serialize_def Let_def)
    from content_of_page_fails [OF this] c g False o show ?thesis
      by (simp add: serialize_def Let_def)
  qed
qed

text \<open>
  C1, as amended. Whenever \<^verbatim>\<open>serialize\<close> returns a response (on success, after a
  timeout with a captured response, without any response, and behind the metadata guard)
  its trace opens one page, closes one, and ends with the closing; every run of
  \<^verbatim>\<open>screenshot\<close>, which ends with a picture or a ScreenshotError, does the same.
\<close>

theorem page_closed_once:
  "(fst (serialize P cfg b url isMobile preview) = Inr res \<longrightarrow>
      closed_once (snd (serialize P cfg b url isMobile preview)))
   \<and> closed_once (snd (screenshot cfg b url isMobile dimensions options))"
  using serialize_returns screenshot_closed by blast

text \<open>
  C1 as stated fails: a preview of a page without any title or \<^verbatim>\<open>h1\<close> makes
  \<^verbatim>\<open>getTitle\<close> raise, \<^verbatim>\<open>serialize\<close> rejects with that error, and no call closes
  the page.
\<close>

theorem page_left_open_counterexample:
  "fst (serialize basic example_config (loaded (ok 200) untitled_page)
          ''https://example.com/'' False True) = Inl TypeError
   \<and> count_list (snd (serialize basic example_config (loaded (ok 200) untitled_page)
          ''https://example.com/'' False True)) Close = 0"
  by code_simp

theorem page_closed_once_witness:
  "fst (serialize basic example_config (loaded (ok 200) titled_page)
          ''https://www.example.com/page'' True True)
     = Inr (PreviewResponse (Num 200) (Some ''Hello'') (Some ''Some text'') ''example.com'' None)
   \<and> closed_once (snd (serialize basic example_config (loaded (ok 200) titled_page)
          ''https://www.example.com/page'' True True))
   \<and> closed_once (snd (screenshot example_config (loaded (ok 200) titled_page)
          ''https://www.example.com/page'' True (800, 600) None))"
proof -
  have r: "fst (serialize basic example_config (loaded (ok 200) titled_page)
          ''https://www.example.com/page'' True True)
     = Inr (PreviewResponse (Num 200) (Some ''Hello'') (Some ''Some text'') ''example.com'' None)"
    by code_simp
  from page_closed_once [of basic example_config "loaded (ok 200) titled_page"
      "''https://www.example.com/page''" True True _ "(800, 600)" None] r
  show ?thesis by simp
qed

section \<open>The double of an integer\<close>

text \<open>
  Up to 53 bits the double of an integer is the integer, and rounding never makes a
  number zero or \<^verbatim>\<open>NaN\<close>.
\<close>

lemma bitLength_le: "m < 2 ^ k \<Longrightarrow> bitLength m \<le> k"
proof (induction k arbitrary: m)
  case 0
  then show ?case by (simp add: bitLength.simps)
next
  case (Suc k)
  show ?case
  proof (cases "m = 0")
    case True
    then show ?thesis by (simp add: bitLength.simps)
  next
    case False
    from Suc.prems have "m div 2 < 2 ^ k" by simp
    then have "bitLength (m div 2) \<le> k" by (rule Suc.IH)
    with False show ?thesis by (subst bitLength.simps) simp
  qed
qed

lemma bitLength_ge: "0 < m \<Longrightarrow> 2 ^ (bitLength m - 1) \<le> m"
proof (induction m rule: bitLength.induct)
  case (1 n)
  show ?case
  proof (cases "n div 2 = 0")
    case True
    with "1.prems" have "n = 1" by (simp add: div_eq_0_iff) 
    then show ?thesis by (simp add: bitLength.simps)
  next
    case False
    with "1.IH" "1.prems" have ih: "2 ^ (bitLength (n div 2) - 1) \<le> n div 2" by simp
    from False have "0 < bitLength (n div 2)" by (subst bitLength.simps) simp
    then have "2 ^ bitLength (n div 2) = 2 * (2::nat) ^ (bitLength (n div 2) - 1)"
      by (cases "bitLength (n div 2)") simp_all
    with ih have "2 ^ bitLength (n div 2) \<le> 2 * (n div 2)" by simp
    also have "\<dots> \<le> n" by simp
    finally show ?thesis using "1.prems" by (subst bitLength.simps) simp
  qed
qed

lemma roundDouble_exact: "m < 2 ^ 53 \<Longrightarrow> roundDouble m = Some m"
  using bitLength_le [of m 53] by (simp add: roundDouble_def)

lemma roundDouble_zero: "roundDouble m = Some 0 \<longleftrightarrow> m = 0"
proof (cases "bitLength m \<le> 53")
  case True
  then show ?thesis by (auto simp: roundDouble_def)
next
  case False
  then have pos: "0 < m" by (cases "m = 0") (simp_all add: bitLength.simps)
  let ?sh = "bitLength m - 53"
  from False have "?sh \<le> bitLength m - 1" by simp
  then have "(2::nat) ^ ?sh \<le> 2 ^ (bitLength m - 1)" by (rule power_increasing) simp
  also from pos have "\<dots> \<le> m" by (rule bitLength_ge)
  finally have "(2::nat) ^ ?sh div 2 ^ ?sh \<le> m div 2 ^ ?sh" by (rule div_le_mono)
  then have "1 \<le> m div 2 ^ ?sh" by simp
  then have "0 < (if m mod 2 ^ ?sh > 2 ^ (?sh - 1) \<or> (m mod 2 ^ ?sh = 2 ^ (?sh - 1) \<and> odd (m div 2 ^ ?sh))
                  then m div 2 ^ ?sh + 1 else m div 2 ^ ?sh) * 2 ^ ?sh"
    by simp
  with False pos show ?thesis by (auto simp: roundDouble_def Let_def)
qed

lemma toNumber_exact: "\<bar>i\<bar> < 2 ^ 53 \<Longrightarrow> toNumber i = Num i"
proof -
  assume "\<bar>i\<bar> < 2 ^ 53"
  then have "nat \<bar>i\<bar> < 2 ^ 53" by (simp add: nat_less_iff)
  then have "roundDouble (nat \<bar>i\<bar>) = Some (nat \<bar>i\<bar>)" by (rule roundDouble_exact)
  then show ?thesis by (simp add: toNumber_def)
qed

lemma toNumber_zero: "toNumber i = Num 0 \<longleftrightarrow> i = 0"
  using roundDouble_zero [of "nat \<bar>i\<bar>"]
  by (auto simp: toNumber_def split: option.splits if_splits)

lemma toNumber_not_NaN: "toNumber i \<noteq> NaN"
  by (simp add: toNumber_def split: option.splits)

section \<open>The delivered status\<close>

lemma serialize_status:
  assumes "captured b = Some r" "\<not> isGoogle r"
    and "fst (serialize P cfg b url isMobile preview) = Inr res"
  shows "status_of res = overrideStatus (status r) (newStatusCode (dom b))"
proof (cases preview)
  case True
  with assms
  have "fst (preview_of P (dom b) url (overrideStatus (status r) (newStatusCode (dom b)))) = Inr res"
    by (simp add: serialize_def Let_def)
  from preview_of_returns [OF this] show ?thesis by simp
next
  case False
  with assms
  have "fst (content_of_page P (dom b) url (overrideStatus (status r) (newStatusCode (dom b)))
               (evalCustomHeaders (dom b))) = Inr res"
    by (simp add: serialize_def Let_def)
  from content_of_page_returns [OF this] show ?thesis by simp
qed

text \<open>
  C2, as amended. With the baseline the network status after 304 has become 200, the
  delivered status is the number that \<^verbatim>\<open>parseInt\<close> reads from the content of the
  first \<^verbatim>\<open>render:status_code\<close> meta tag exactly when the baseline is 200 and that
  number is neither \<^verbatim>\<open>NaN\<close> nor zero; in every other case it is the baseline.
\<close>

theorem status_override:
  assumes "captured b = Some r" "\<not> isGoogle r"
    and "fst (serialize P cfg b url isMobile preview) = Inr res"
    and "baseline = (if status r = 304 then 200 else status r)"
  shows "status_of res =
     (case querySelector (meta_name ''render:status_code'') (dom b) of
        None \<Rightarrow> Num baseline
      | Some element \<Rightarrow>
          (let n = parseInt (orEmpty (getAttribute element ''content''))
           in if baseline = 200 \<and> n \<noteq> NaN \<and> n \<noteq> Num 0 then n else Num baseline))"
  using serialize_status [OF assms(1-3)] assms(4)
  by (simp add: overrideStatus_def newStatusCode_def truthy_def Let_def split: option.splits)

text \<open>
  C2 as stated fails: the content \<^verbatim>\<open>0\<close> parses to the integer 0, the baseline is
  200, and the delivered status stays 200.
\<close>

theorem status_override_zero_counterexample:
  "querySelector (meta_name ''render:status_code'') (status_page ''0'')
     = Some (el ''meta'' [(''name'', ''render:status_code''), (''content'', ''0'')] [])
   \<and> parseInt ''0'' = Num 0
   \<and> map_sum id status_of
        (fst (serialize basic example_config (loaded (ok 200) (status_page ''0''))
                ''https://example.com/'' False False)) = Inr (Num 200)"
  by code_simp

theorem status_override_witness:
  "captured (loaded (ok 200) (status_page ''404'')) = Some (ok 200)
   \<and> \<not> isGoogle (ok 200)
   \<and> fst (serialize basic example_config (loaded (ok 200) (status_page ''404''))
            ''https://example.com/'' False True)
       = Inr (PreviewResponse (Num 404) (Some ''Hello'') None ''example.com'' None)
   \<and> status_of (PreviewResponse (Num 404) (Some ''Hello'') None ''example.com'' None) = Num 404
   \<and> captured (loaded (ok 500) (status_page ''201'')) = Some (ok 500)
   \<and> \<not> isGoogle (ok 500)
   \<and> fst (serialize basic example_config (loaded (ok 500) (status_page ''201''))
            ''https://example.com/'' False True)
       = Inr (PreviewResponse (Num 500) (Some ''Hello'') None ''example.com'' None)
   \<and> status_of (PreviewResponse (Num 500) (Some ''Hello'') None ''example.com'' None) = Num 500"
proof -
  let ?u = "''https://example.com/''"
  let ?b4 = "loaded (ok 200) (status_page ''404'')"
  let ?b5 = "loaded (ok 500) (status_page ''201'')"
  have c4: "captured ?b4 = Some (ok 200)" and c5: "captured ?b5 = Some (ok 500)"
    by (simp_all add: captured_def loaded_def)
  have g4: "\<not> isGoogle (ok 200)" and g5: "\<not> isGoogle (ok 500)"
    by (simp_all add: isGoogle_def ok_def)
  have r4: "fst (serialize basic example_config ?b4 ?u False True)
              = Inr (PreviewResponse (Num 404) (Some ''Hello'') None ''example.com'' None)"
    by code_simp
  have r5: "fst (serialize basic example_config ?b5 ?u False True)
              = Inr (PreviewResponse (Num 500) (Some ''Hello'') None ''example.com'' None)"
    by code_simp
  have e4: "(case querySelector (meta_name ''render:status_code'') (dom ?b4) of
               None \<Rightarrow> Num (if status (ok 200) = 304 then 200 else status (ok 200))
             | Some element \<Rightarrow>
                 (let n = parseInt (orEmpty (getAttribute element ''content''))
                  in if (if status (ok 200) = 304 then 200 else status (ok 200)) = 200
                        \<and> n \<noteq> NaN \<and> n \<noteq> Num 0
                     then n
                     else Num (if status (ok 200) = 304 then 200 else status (ok 200)))) = Num 404"
    by code_simp
  have e5: "(case querySelector (meta_name ''render:status_code'') (dom ?b5) of
               None \<Rightarrow> Num (if status (ok 500) = 304 then 200 else status (ok 500))
             | Some element \<Rightarrow>
                 (let n = parseInt (orEmpty (getAttribute element ''content''))
                  in if (if status (ok 500) = 304 then 200 else status (ok 500)) = 200
                        \<and> n \<noteq> NaN \<and> n \<noteq> Num 0
                     then n
                     else Num (if status (ok 500) = 304 then 200 else status (ok 500)))) = Num 500"
    by code_simp
  have s4: "status_of (PreviewResponse (Num 404) (Some ''Hello'') None ''example.com'' None) = Num 404"
    using status_override [OF c4 g4 r4 refl] e4 by (rule trans)
  have s5: "status_of (PreviewResponse (Num 500) (Some ''Hello'') None ''example.com'' None) = Num 500"
    using status_override [OF c5 g5 r5 refl] e5 by (rule trans)
  from c4 g4 r4 s4 c5 g5 r5 s5 show ?thesis by blast
qed

text \<open>
  C3, as amended. A response with network status 304 is handled exactly as the same
  response with status 200: the caller sees 200 unless the page overrides the status
  with a number that is neither \<^verbatim>\<open>NaN\<close> nor zero (then that number) or the
  metadata guard answers 403.
\<close>

theorem not_modified_as_ok:
  "captured b = Some r \<and> status r = 304 \<longrightarrow>
     serialize P cfg b url isMobile preview
       = serialize P cfg (b\<lparr>goto := Resolves (Some (r\<lparr>status := 200\<rparr>))\<rparr>) url isMobile preview
     \<and> (\<not> isGoogle r \<and> fst (serialize P cfg b url isMobile preview) = Inr res \<longrightarrow>
          status_of res = (case newStatusCode (dom b) of
                             None \<Rightarrow> Num 200
                           | Some n \<Rightarrow> if n \<noteq> NaN \<and> n \<noteq> Num 0 then n else Num 200))"
proof (intro impI, elim conjE)
  assume c: "captured b = Some r" and s: "status r = 304"
  have 1: "serialize P cfg b url isMobile preview
       = serialize P cfg (b\<lparr>goto := Resolves (Some (r\<lparr>status := 200\<rparr>))\<rparr>) url isMobile preview"
    using c s by (simp add: serialize_def captured_def isGoogle_def overrideStatus_def Let_def)
  have 2: "status_of res = (case newStatusCode (dom b) of
                             None \<Rightarrow> Num 200
                           | Some n \<Rightarrow> if n \<noteq> NaN \<and> n \<noteq> Num 0 then n else Num 200)"
    if "\<not> isGoogle r" "fst (serialize P cfg b url isMobile preview) = Inr res"
    using serialize_status [OF c that] s
    by (simp add: overrideStatus_def truthy_def split: option.splits)
  from 1 2 show "serialize P cfg b url isMobile preview
       = serialize P cfg (b\<lparr>goto := Resolves (Some (r\<lparr>status := 200\<rparr>))\<rparr>) url isMobile preview
     \<and> (\<not> isGoogle r \<and> fst (serialize P cfg b url isMobile preview) = Inr res \<longrightarrow>
          status_of res = (case newStatusCode (dom b) of
                             None \<Rightarrow> Num 200
                           | Some n \<Rightarrow> if n \<noteq> NaN \<and> n \<noteq> Num 0 then n else Num 200))"
    by blast
qed

text \<open>
  C3 as stated fails: network status 304 and a status meta tag with content
  \<^verbatim>\<open>404\<close> give the caller 404.
\<close>

theorem not_modified_overridden_counterexample:
  "captured (loaded (ok 304) (status_page ''404'')) = Some (ok 304)
   \<and> status (ok 304) = 304
   \<and> fst (serialize basic example_config (loaded (ok 304) (status_page ''404''))
            ''https://example.com/'' False True)
       = Inr (PreviewResponse (Num 404) (Some ''Hello'') None ''example.com'' None)"
  by code_simp

theorem not_modified_as_ok_witness:
  "captured (loaded (ok 304) titled_page) = Some (ok 304)
   \<and> status (ok 304) = 304
   \<and> \<not> isGoogle (ok 304)
   \<and> fst (serialize basic example_config (loaded (ok 304) titled_page)
            ''https://www.example.com/page'' False True)
       = Inr (PreviewResponse (Num 200) (Some ''Hello'') (Some ''Some text'') ''example.com'' None)
   \<and> newStatusCode (dom (loaded (ok 304) titled_page)) = None
   \<and> status_of (PreviewResponse (Num 200) (Some ''Hello'') (Some ''Some text'') ''example.com'' None)
       = Num 200"
proof -
  let ?b = "loaded (ok 304) titled_page"
  have c: "captured ?b = Some (ok 304)"
    by (simp add: captured_def loaded_def)
  have s: "status (ok 304) = 304" and g: "\<not> isGoogle (ok 304)"
    by (simp_all add: isGoogle_def ok_def)
  have r: "fst (serialize basic example_config ?b ''https://www.example.com/page'' False True)
       = Inr (PreviewResponse (Num 200) (Some ''Hello'') (Some ''Some text'') ''example.com'' None)"
    by code_simp
  have n: "newStatusCode (dom ?b) = None"
    by code_simp
  from not_modified_as_ok [of ?b "ok 304" basic example_config
      "''https://www.example.com/page''" False True] c s g r n
  show ?thesis by simp
qed

section \<open>Navigation: the partial response\<close>

text \<open>
  C10. Only \<^verbatim>\<open>serialize\<close> registers a response listener. When \<^verbatim>\<open>goto\<close> rejects
  (a timeout or any other error), \<^verbatim>\<open>screenshot\<close> fails with \<^verbatim>\<open>NoResponse\<close>
  whatever responses had arrived, while \<^verbatim>\<open>serialize\<close> goes on with the first
  response \<open>r\<close> the listener saw, exactly as if \<^verbatim>\<open>goto\<close> had resolved with it: its
  headers decide the metadata guard, its status is the baseline of the delivered status,
  and the override protocol, the extractor and the sanitizer run on the document as it
  stands. It answers 400 only when no response arrived at all.
\<close>

theorem partial_response_only_in_serialize:
  "AddResponseListener \<in> set (snd (serialize P cfg b url isMobile preview))
   \<and> AddResponseListener \<notin> set (snd (screenshot cfg b url isMobile dimensions options))
   \<and> (goto b = Rejects \<longrightarrow>
        screenshot cfg b url isMobile dimensions options
          = (Inl (ScreenshotError NoResponse),
             [NewPage, SetViewport (fst dimensions) (snd dimensions) isMobile]
             @ (if isMobile then [SetUserAgent MOBILE_USERAGENT] else [])
             @ [Goto url (timeout cfg), Close])
        \<and> (\<forall>r rs. responses b = r # rs \<longrightarrow>
              serialize P cfg b url isMobile preview
                = serialize P cfg (b\<lparr>goto := Resolves (Some r)\<rparr>) url isMobile preview
              \<and> serialize P cfg b url isMobile preview
                = (if isGoogle r
                   then (Inr (SerializedResponse (Num 403) [] []),
                         open_serialize cfg url isMobile @ [Close])
                   else (let statusCode = overrideStatus (status r) (newStatusCode (dom b));
                             rest = (if preview
                                     then preview_of P (dom b) url statusCode
                                     else content_of_page P (dom b) url statusCode
                                            (evalCustomHeaders (dom b)))
                         in (fst rest,
                             open_serialize cfg url isMobile
                             @ [QueryStatusCode, QueryHeader] @ snd rest)))
              \<and> (\<forall>res. \<not> isGoogle r
                      \<and> fst (serialize P cfg b url isMobile preview) = Inr res \<longrightarrow>
                    status_of res = overrideStatus (status r) (newStatusCode (dom b))
                    \<and> (\<not> truthy (newStatusCode (dom b)) \<longrightarrow>
                         status_of res = Num (if status r = 304 then 200 else status r))))
        \<and> (responses b = [] \<longrightarrow>
              serialize P cfg b url isMobile preview
                = (Inr (SerializedResponse (Num 400) [] []),
                   open_serialize cfg url isMobile @ [Close])))"
proof -
  have listened: "AddResponseListener \<in> set (open_serialize cfg url isMobile)"
    by (simp add: open_serialize_def)
  have 1: "AddResponseListener \<in> set (snd (serialize P cfg b url isMobile preview))"
    using listened
    by (simp add: serialize_def Let_def split: option.splits)
  have 2: "AddResponseListener \<notin> set (snd (screenshot cfg b url isMobile dimensions options))"
    by (simp add: screenshot_def Let_def split: option.splits)
  have 3: "screenshot cfg b url isMobile dimensions options
          = (Inl (ScreenshotError NoResponse),
             [NewPage, SetViewport (fst dimensions) (snd dimensions) isMobile]
             @ (if isMobile then [SetUserAgent MOBILE_USERAGENT] else [])
             @ [Goto url (timeout cfg), Close])"
    if "goto b = Rejects"
    using that by (simp add: screenshot_def Let_def)
  have 4: "serialize P cfg b url isMobile preview
                = serialize P cfg (b\<lparr>goto := Resolves (Some r)\<rparr>) url isMobile preview"
    if "goto b = Rejects" "responses b = r # rs" for r rs
    using that by (simp add: serialize_def captured_def Let_def)
  have 5: "serialize P cfg b url isMobile preview
                = (if isGoogle r
                   then (Inr (SerializedResponse (Num 403) [] []),
                         open_serialize cfg url isMobile @ [Close])
                   else (let statusCode = overrideStatus (status r) (newStatusCode (dom b));
                             rest = (if preview
                                     then preview_of P (dom b) url statusCode
                                     else content_of_page P (dom b) url statusCode
                                            (evalCustomHeaders (dom b)))
                         in (fst rest,
                             open_serialize cfg url isMobile
                             @ [QueryStatusCode, QueryHeader] @ snd rest)))"
    if "goto b = Rejects" "responses b = r # rs" for r rs
    using that by (simp add: serialize_def captured_def Let_def)
  have 6: "status_of res = overrideStatus (status r) (newStatusCode (dom b))
           \<and> (\<not> truthy (newStatusCode (dom b)) \<longrightarrow>
                 status_of res = Num (if status r = 304 then 200 else status r))"
    if "goto b = Rejects" "responses b = r # rs" "\<not> isGoogle r"
      "fst (serialize P cfg b url isMobile preview) = Inr res" for r rs res
  proof -
    from that(1,2) have c: "captured b = Some r"
      by (simp add: captured_def)
    from serialize_status [OF c that(3,4)]
    show ?thesis by (simp add: overrideStatus_def Let_def)
  qed
  have 7: "serialize P cfg b url isMobile preview
                = (Inr (SerializedResponse (Num 400) [] []),
                   open_serialize cfg url isMobile @ [Close])"
    if "goto b = Rejects" "responses b = []"
    using that by (simp add: serialize_def captured_def Let_def)
  from 1 2 3 4 5 6 7 show ?thesis by blast
qed

theorem partial_response_only_in_serialize_witness:
  "goto (timed_out (ok 500) titled_page) = Rejects
   \<and> responses (timed_out (ok 500) titled_page) = [ok 500]
   \<and> \<not> isGoogle (ok 500)
   \<and> fst (screenshot example_config (timed_out (ok 500) titled_page)
            ''https://www.example.com/page'' False (800, 600) None)
       = Inl (ScreenshotError NoResponse)
   \<and> fst (serialize basic example_config (timed_out (ok 500) titled_page)
            ''https://www.example.com/page'' False True)
       = Inr (PreviewResponse (Num 500) (Some ''Hello'') (Some ''Some text'') ''example.com''
                None)
   \<and> status_of (PreviewResponse (Num 500) (Some ''Hello'') (Some ''Some text'')
                  ''example.com'' None)
       = Num (if status (ok 500) = 304 then 200 else status (ok 500))
   \<and> goto (timed_out metadata_response titled_page) = Rejects
   \<and> responses (timed_out metadata_response titled_page) = [metadata_response]
   \<and> isGoogle metadata_response
   \<and> fst (serialize basic example_config (timed_out metadata_response titled_page)
            ''https://www.example.com/page'' False True)
       = Inr (SerializedResponse (Num 403) [] [])"
proof -
  let ?u = "''https://www.example.com/page''"
  let ?b = "timed_out (ok 500) titled_page"
  let ?m = "timed_out metadata_response titled_page"
  let ?res = "PreviewResponse (Num 500) (Some ''Hello'') (Some ''Some text'') ''example.com'' None"
  have g: "goto ?b = Rejects" and gm: "goto ?m = Rejects"
    by (simp_all add: timed_out_def)
  have r: "responses ?b = [ok 500]" and rm: "responses ?m = [metadata_response]"
    by (simp_all add: timed_out_def)
  have n: "\<not> isGoogle (ok 500)" and m: "isGoogle metadata_response"
    by (simp_all add: isGoogle_def ok_def metadata_response_def)
  have t: "\<not> truthy (newStatusCode (dom ?b))"
    by code_simp
  have s: "fst (serialize basic example_config
                  (?b\<lparr>goto := Resolves (Some (ok 500))\<rparr>) ?u False True) = Inr ?res"
    by code_simp
  note w = partial_response_only_in_serialize [of basic example_config ?b ?u False True
      "(800, 600)" None]
  from w g have 1: "fst (screenshot example_config ?b ?u False (800, 600) None)
       = Inl (ScreenshotError NoResponse)"
    by simp
  from w g r have "serialize basic example_config ?b ?u False True
       = serialize basic example_config (?b\<lparr>goto := Resolves (Some (ok 500))\<rparr>) ?u False True"
    by blast
  with s have 2: "fst (serialize basic example_config ?b ?u False True) = Inr ?res"
    by simp
  from w g r n 2 t
  have 3: "status_of ?res = Num (if status (ok 500) = 304 then 200 else status (ok 500))"
    by blast
  from partial_response_only_in_serialize [of basic example_config ?m ?u False True
      "(800, 600)" None] gm rm
  have "serialize basic example_config ?m ?u False True
       = (if isGoogle metadata_response
          then (Inr (SerializedResponse (Num 403) [] []),
                open_serialize example_config ?u False @ [Close])
          else (let statusCode = overrideStatus (status metadata_response)
                                   (newStatusCode (dom ?m));
                    rest = (if True
                            then preview_of basic (dom ?m) ?u statusCode
                            else content_of_page basic (dom ?m) ?u statusCode
                                   (evalCustomHeaders (dom ?m)))
                in (fst rest,
                    open_serialize example_config ?u False
                    @ [QueryStatusCode, QueryHeader] @ snd rest)))"
    by blast
  with m have 4: "fst (serialize basic example_config ?m ?u False True)
       = Inr (SerializedResponse (Num 403) [] [])"
    by simp
  from g r n 1 2 3 gm rm m 4 show ?thesis by blast
qed

section \<open>Searching and replacing in strings\<close>

lemma indexOf_from_range: "indexOf_from i s pat = - 1 \<or> int i \<le> indexOf_from i s pat"
proof (induction s arbitrary: i)
  case Nil
  then show ?case by simp
next
  case (Cons c s)
  from Cons [of "Suc i"] show ?case by auto
qed

lemma indexOf_from_shift:
  "indexOf_from i s pat =
     (if indexOf_from 0 s pat = - 1 then - 1 else int i + indexOf_from 0 s pat)"
proof (induction s arbitrary: i)
  case Nil
  then show ?case by simp
next
  case (Cons c s)
  show ?case
  proof (cases "prefix pat (c # s)")
    case True
    then show ?thesis by simp
  next
    case False
    have a: "indexOf_from (Suc i) s pat =
        (if indexOf_from 0 s pat = - 1 then - 1 else int (Suc i) + indexOf_from 0 s pat)"
      by (rule Cons.IH)
    have b: "indexOf_from (Suc 0) s pat =
        (if indexOf_from 0 s pat = - 1 then - 1 else int (Suc 0) + indexOf_from 0 s pat)"
      by (rule Cons.IH)
    from indexOf_from_range [of 0 s pat]
    have "indexOf_from 0 s pat = - 1 \<or> 0 \<le> indexOf_from 0 s pat" by simp
    with False a b show ?thesis by auto
  qed
qed

lemma indexOf_Cons:
  "indexOf (c # s) pat =
     (if prefix pat (c # s) then 0 else if indexOf s pat = - 1 then - 1 else 1 + indexOf s pat)"
  using indexOf_from_shift [of "Suc 0" s pat] by (simp add: indexOf_def)

lemma indexOf_range: "indexOf s pat = - 1 \<or> 0 \<le> indexOf s pat"
  using indexOf_from_range [of 0 s pat] by (simp add: indexOf_def)

lemma replace_indexOf:
  "pat \<noteq> [] \<Longrightarrow>
   replace s pat [] =
     (if indexOf s pat = - 1 then s
      else take (nat (indexOf s pat)) s @ drop (nat (indexOf s pat) + length pat) s)"
proof (induction s)
  case Nil
  then show ?case by (simp add: indexOf_def)
next
  case (Cons c s)
  show ?case
  proof (cases "prefix pat (c # s)")
    case True
    then show ?thesis by (simp add: indexOf_Cons)
  next
    case False
    from indexOf_range [of s pat] have "indexOf s pat = - 1 \<or> 0 \<le> indexOf s pat" .
    then show ?thesis
    proof
      assume "indexOf s pat = - 1"
      with False Cons show ?thesis by (simp add: indexOf_Cons)
    next
      assume nn: "0 \<le> indexOf s pat"
      then have n1: "indexOf s pat \<noteq> - 1" by simp
      from nn have "nat (1 + indexOf s pat) = Suc (nat (indexOf s pat))" by simp
      with False Cons n1 nn show ?thesis by (simp add: indexOf_Cons)
    qed
  qed
qed

lemma replace_prefix: "prefix pat s \<Longrightarrow> replace s pat rep = rep @ drop (length pat) s"
  by (cases s) simp_all

section \<open>The extractor: domain, title and image\<close>

text \<open>
  C6. The claim fails on the code, by a slip of the code: \<^verbatim>\<open>getDomainName\<close> strips
  the prefix with \<^verbatim>\<open>hostname.replace('www.', '')\<close>, which takes away the first
  \<^verbatim>\<open>www.\<close> wherever it stands. For the requested URL
  \<^verbatim>\<open>https://api.www.example.com/page\<close> and a page without canonical link and
  Open-Graph url, the host name does not start with \<^verbatim>\<open>www.\<close> and the domain is
  \<^verbatim>\<open>api.example.com\<close>, where the claim has the host name kept as it is.
\<close>

theorem getDomainName_inner_www:
  "domainName basic titled_page = None
   \<and> URL_hostname basic ''https://api.www.example.com/page'' = Some ''api.www.example.com''
   \<and> \<not> startsWith ''api.www.example.com'' ''www.''
   \<and> getDomainName basic titled_page ''https://api.www.example.com/page''
       = Inr ''api.example.com''"
  by code_simp

text \<open>
  What the code does in general: the chosen URL is the \<^verbatim>\<open>href\<close> of the first canonical
  link when it is not empty, else the content of the first Open-Graph url when it is not
  empty, else the requested URL; when that URL has no host name the constructor of
  \<^verbatim>\<open>URL\<close> throws, and else the first \<^verbatim>\<open>www.\<close> of the host name is taken away,
  which is the leading one when the host name starts with it.
\<close>

lemma domainName_precedence:
  "domainName P d =
     (case querySelector (link_rel ''canonical'') d of
        Some l \<Rightarrow>
          if href_of P l \<noteq> [] then Some (href_of P l)
          else (case querySelector (meta_property ''og:url'') d of
                  Some m \<Rightarrow> if content_of m \<noteq> [] then Some (content_of m) else None
                | None \<Rightarrow> None)
      | None \<Rightarrow>
          (case querySelector (meta_property ''og:url'') d of
             Some m \<Rightarrow> if content_of m \<noteq> [] then Some (content_of m) else None
           | None \<Rightarrow> None))"
  by (simp add: domainName_def nonEmpty_def Let_def split: option.splits)

lemma getDomainName_hostname:
  assumes "getDomainName P d uri = Inr dn"
  shows "\<exists>hostname.
        URL_hostname P (case domainName P d of Some u \<Rightarrow> u | None \<Rightarrow> uri) = Some hostname
        \<and> dn = (if indexOf hostname ''www.'' = - 1 then hostname
                else take (nat (indexOf hostname ''www.'')) hostname
                     @ drop (nat (indexOf hostname ''www.'') + 4) hostname)
        \<and> (startsWith hostname ''www.'' \<longrightarrow> dn = drop 4 hostname)"
proof -
  from assms obtain h
    where h: "URL_hostname P (case domainName P d of Some u \<Rightarrow> u | None \<Rightarrow> uri) = Some h"
    and dn: "dn = replace h ''www.'' []"
    by (auto simp: getDomainName_def split: option.splits)
  have l: "length ''www.'' = 4" by simp
  have 1: "dn = (if indexOf h ''www.'' = - 1 then h
                else take (nat (indexOf h ''www.'')) h @ drop (nat (indexOf h ''www.'') + 4) h)"
    using replace_indexOf [of "''www.''" h, unfolded l] dn by simp
  have 2: "startsWith h ''www.'' \<longrightarrow> dn = drop 4 h"
    using replace_prefix [of "''www.''" h "[]", unfolded l] dn by (simp add: startsWith_def)
  from h 1 2 show ?thesis by blast
qed

lemma getDomainName_throws:
  "URL_hostname P (case domainName P d of Some u \<Rightarrow> u | None \<Rightarrow> uri) = None
     \<Longrightarrow> getDomainName P d uri = Inl TypeError"
  by (simp add: getDomainName_def)

lemma getDomainName_examples:
  "getDomainName basic titled_page ''https://www.example.com/page'' = Inr ''example.com''"
  "getDomainName basic titled_page ''https://awww.example.com/page'' = Inr ''aexample.com''"
  "getDomainName basic (og_url_page ''https://www.og.example/a'') ''https://example.com/''
     = Inr ''og.example''"
  "getDomainName basic
     (canonical_page ''https://www.canonical.example/a'' ''https://www.og.example/a'')
     ''https://example.com/'' = Inr ''canonical.example''"
  "getDomainName basic (og_url_page ''/page'') ''https://example.com/'' = Inl TypeError"
  by code_simp+

text \<open>
  C5. The claim fails on the code, by a slip of the code: on a page without Open-Graph
  title, Twitter title, document title and \<^verbatim>\<open>h1\<close>, the script reads
  \<^verbatim>\<open>innerHTML\<close> of the \<^verbatim>\<open>null\<close> that \<^verbatim>\<open>querySelector('h1')\<close> returns, so
  \<^verbatim>\<open>getTitle\<close> raises a TypeError where the claim has it return \<^verbatim>\<open>null\<close>.
\<close>

theorem getTitle_without_heading:
  "querySelector (meta_property ''og:title'') untitled_page = None
   \<and> querySelector (meta_name ''twitter:title'') untitled_page = None
   \<and> document_title untitled_page = []
   \<and> querySelector [Compound ''h1'' []] untitled_page = None
   \<and> getTitle basic untitled_page = Inl TypeError"
  by code_simp

lemma getTitle_no_heading:
  assumes "\<not> nonEmpty content_of (querySelector (meta_property ''og:title'') d)"
    and "\<not> nonEmpty content_of (querySelector (meta_name ''twitter:title'') d)"
    and "document_title d = []"
    and "querySelector [Compound ''h1'' []] d = None"
  shows "getTitle P d = Inl TypeError"
  using assms by (simp add: getTitle_def Let_def)

lemma getTitle_empty_heading:
  assumes "\<not> nonEmpty content_of (querySelector (meta_property ''og:title'') d)"
    and "\<not> nonEmpty content_of (querySelector (meta_name ''twitter:title'') d)"
    and "document_title d = []"
    and "querySelector [Compound ''h1'' []] d = Some e"
    and "innerHTML P (childNodes e) = []"
  shows "getTitle P d = Inr None"
  using assms by (simp add: getTitle_def Let_def)

text \<open>
  C7. The claim fails on the code, by a slip of the code: the test
  \<^verbatim>\<open>imgs.length > 0\<close> is made before the filter, so on a page whose images are all
  filtered out the script reads \<^verbatim>\<open>src\<close> of \<^verbatim>\<open>imgs[0]\<close>, which is
  \<^verbatim>\<open>undefined\<close>, and \<^verbatim>\<open>getImg\<close> raises a TypeError where the claim has it return
  \<^verbatim>\<open>null\<close>.
\<close>

theorem getImg_only_icons:
  "getElementsByTagName ''img'' icon_page = [image ''https://example.com/icon.png'' 40 40]
   \<and> filter addImg (getElementsByTagName ''img'' icon_page) = []
   \<and> getImg basic icon_page ''https://example.com/'' = Inl TypeError"
  by code_simp

lemma addImg_examples:
  "\<not> addImg (image src 40 40)" "\<not> addImg (image src 200 60)" "addImg (image src 200 80)"
  by (simp_all add: addImg_def image_def natWidth_def natHeight_def)

text \<open>
  The rewriting of a source without \<^verbatim>\<open>//\<close> reads the variable \<^verbatim>\<open>uri\<close> in the
  page, where it is not declared.
\<close>

lemma getImg_unbound_uri:
  "getImg basic data_image_page ''https://example.com/'' = Inl ReferenceError"
  by code_simp

lemma addImg_iff:
  "addImg img \<longleftrightarrow>
     \<not> (natWidth img > 3 * natHeight img \<or> natHeight img > 3 * natWidth img
        \<or> natHeight img \<le> 50 \<or> natWidth img \<le> 50)"
  by (auto simp: addImg_def Let_def)

section \<open>The custom header\<close>

lemma indexOf_absent: "c \<notin> set h \<Longrightarrow> indexOf h [c] = - 1"
  by (induction h) (simp_all add: indexOf_Cons, simp add: indexOf_def)

lemma indexOf_first: "c \<notin> set k \<Longrightarrow> indexOf (k @ c # v) [c] = int (length k)"
  by (induction k) (simp_all add: indexOf_Cons)

lemma dropLeading_decompose: "\<exists>xs. set xs \<subseteq> set ws \<and> s = concat xs @ dropLeading ws s"
proof (induction ws s rule: dropLeading.induct)
  case (1 ws)
  have "set [] \<subseteq> set ws \<and> [] = concat [] @ dropLeading ws []" by simp
  then show ?case by blast
next
  case (2 ws c s)
  show ?case
  proof (cases "find (\<lambda>w. w \<noteq> [] \<and> prefix w (c # s)) ws")
    case None
    then have "set [] \<subseteq> set ws \<and> c # s = concat [] @ dropLeading ws (c # s)" by simp
    then show ?thesis by blast
  next
    case (Some w)
    then have w: "w \<in> set ws" "w \<noteq> []" "prefix w (c # s)"
      by (auto simp: find_Some_iff)
    from w(2,3) obtain w' where w': "w = c # w'" "prefix w' s"
      by (cases w) auto
    then obtain t where t: "s = w' @ t" by (auto simp: prefix_def)
    with w' have d: "drop (length w - 1) s = t" by simp
    from "2.IH" [OF Some] d obtain xs where xs: "set xs \<subseteq> set ws" "t = concat xs @ dropLeading ws t"
      by auto
    from Some d have "dropLeading ws (c # s) = dropLeading ws t" by simp
    with xs w(1) w'(1) t have "set (w # xs) \<subseteq> set ws \<and> c # s = concat (w # xs) @ dropLeading ws (c # s)"
      by simp
    then show ?thesis by blast
  qed
qed

lemma dropLeading_no_prefix:
  "w \<in> set ws \<Longrightarrow> w \<noteq> [] \<Longrightarrow> \<not> prefix w (dropLeading ws s)"
proof (induction ws s rule: dropLeading.induct)
  case (1 ws)
  then show ?case by simp
next
  case (2 ws c s)
  show ?case
  proof (cases "find (\<lambda>w. w \<noteq> [] \<and> prefix w (c # s)) ws")
    case None
    then have "dropLeading ws (c # s) = c # s" by simp
    moreover from None "2.prems" have "\<not> prefix w (c # s)"
      by (auto simp: find_None_iff)
    ultimately show ?thesis by simp
  next
    case (Some w')
    from "2.IH" [OF Some "2.prems"] Some show ?thesis by simp
  qed
qed

lemma whiteSpaces_nonempty: "w \<in> set whiteSpaces \<Longrightarrow> w \<noteq> []"
  by (auto simp: whiteSpaces_def)

lemma trim_decompose:
  "\<exists>xs ys. set xs \<subseteq> set whiteSpaces \<and> set ys \<subseteq> set whiteSpaces
      \<and> s = concat xs @ trim s @ concat ys"
proof -
  let ?m = "dropLeading whiteSpaces s"
  from dropLeading_decompose [of whiteSpaces s]
  obtain xs where xs: "set xs \<subseteq> set whiteSpaces" "s = concat xs @ ?m" by blast
  from dropLeading_decompose [of "map rev whiteSpaces" "rev ?m"]
  obtain zs where zs: "set zs \<subseteq> set (map rev whiteSpaces)"
    "rev ?m = concat zs @ dropLeading (map rev whiteSpaces) (rev ?m)" by blast
  from zs(2) have "rev (rev ?m) = rev (concat zs @ dropLeading (map rev whiteSpaces) (rev ?m))"
    by (rule arg_cong)
  then have m: "?m = trim s @ concat (map rev (rev zs))"
    by (simp add: trim_def rev_concat)
  from zs(1) have "set (map rev (rev zs)) \<subseteq> set whiteSpaces" by auto
  with xs m show ?thesis by metis
qed

lemma trim_ends:
  assumes "w \<in> set whiteSpaces"
  shows "\<not> prefix w (trim s) \<and> \<not> suffix w (trim s)"
proof -
  let ?m = "dropLeading whiteSpaces s"
  from assms have ne: "w \<noteq> []" by (rule whiteSpaces_nonempty)
  from dropLeading_decompose [of "map rev whiteSpaces" "rev ?m"]
  obtain zs where "rev ?m = concat zs @ dropLeading (map rev whiteSpaces) (rev ?m)" by blast
  then have "rev (rev ?m) = rev (concat zs @ dropLeading (map rev whiteSpaces) (rev ?m))"
    by (rule arg_cong)
  then have "?m = trim s @ rev (concat zs)" by (simp add: trim_def)
  then have "prefix (trim s) ?m" by (metis prefixI)
  moreover have "\<not> prefix w ?m" using assms ne by (rule dropLeading_no_prefix)
  ultimately have 1: "\<not> prefix w (trim s)" by (meson prefix_order.trans)
  from assms have "rev w \<in> set (map rev whiteSpaces)" by simp
  moreover from ne have "rev w \<noteq> []" by simp
  ultimately have "\<not> prefix (rev w) (dropLeading (map rev whiteSpaces) (rev ?m))"
    by (rule dropLeading_no_prefix)
  then have 2: "\<not> suffix w (trim s)"
    by (simp add: trim_def suffix_to_prefix)
  from 1 2 show ?thesis by simp
qed

lemma indexOf_present: "c \<in> set h \<Longrightarrow> indexOf h [c] \<noteq> - 1"
proof -
  assume "c \<in> set h"
  then obtain k v where "h = k @ c # v" and "c \<notin> set k"
    by (auto dest: split_list_first)
  with indexOf_first [of c k v] show ?thesis by simp
qed

lemma headerEntries_cases:
  "headerEntries None = []"
  "headerEntries (Some []) = []"
  "CHR '':'' \<notin> set h \<Longrightarrow> headerEntries (Some h) = []"
  "CHR '':'' \<notin> set k \<Longrightarrow> headerEntries (Some (k @ '':'' @ v)) = [(trim k, trim v)]"
proof -
  show "headerEntries None = []" "headerEntries (Some []) = []"
    by (simp_all add: headerEntries_def)
  show "headerEntries (Some h) = []" if "CHR '':'' \<notin> set h"
    using indexOf_absent [OF that] by (simp add: headerEntries_def)
  show "headerEntries (Some (k @ '':'' @ v)) = [(trim k, trim v)]" if "CHR '':'' \<notin> set k"
  proof -
    have n: "nat (int (length k) + 1) = Suc (length k)" by simp
    from indexOf_first [OF that, of v] show ?thesis
      by (simp add: headerEntries_def substr0_def substring_def Let_def n)
  qed
qed

lemma headerEntries_length: "length (headerEntries c) \<le> 1"
  by (simp add: headerEntries_def Let_def split: option.splits)

lemma serialize_headers:
  assumes "captured b = Some r" "\<not> isGoogle r"
    and "fst (serialize P cfg b url isMobile False) = Inr res"
  shows "\<exists>s content. res = SerializedResponse s
           (case querySelector (meta_name ''render:header'') (dom b) of
              None \<Rightarrow> []
            | Some element \<Rightarrow> headerEntries (getAttribute element ''content'')) content"
  using assms
  by (auto simp: serialize_def content_of_page_def evalCustomHeaders_def Let_def
      split: sum.splits option.splits)

lemma headerEntries_empty:
  "headerEntries c = [] \<longleftrightarrow>
     (c = None \<or> c = Some [] \<or> (\<exists>h. c = Some h \<and> CHR '':'' \<notin> set h))"
proof (cases c)
  case None
  then show ?thesis by (simp add: headerEntries_def)
next
  case (Some h)
  show ?thesis
  proof (cases "CHR '':'' \<in> set h")
    case True
    then have "h \<noteq> []" by auto
    with indexOf_present [OF True] Some True show ?thesis
      by (simp add: headerEntries_def Let_def)
  next
    case False
    with headerEntries_cases(3) [OF False] Some show ?thesis by simp
  qed
qed

text \<open>
  C8, as amended. The \<^verbatim>\<open>render:header\<close> meta tag gives at most one header. Content
  that is absent, empty or without a colon gives none, and only such content gives none:
  content \<open>k:v\<close> with no colon in \<open>k\<close> gives the one header with name \<open>trim k\<close> and
  value \<open>trim v\<close>, also when one of them is empty, where \<open>trim\<close> takes away white space
  at both ends and nothing else. The headers of the response of \<^verbatim>\<open>serialize\<close> are
  those of the first such tag, and none when there is no tag.
\<close>

theorem custom_header:
  "length (headerEntries c) \<le> 1
   \<and> (headerEntries c = [] \<longleftrightarrow>
        (c = None \<or> c = Some [] \<or> (\<exists>h. c = Some h \<and> CHR '':'' \<notin> set h)))
   \<and> (\<forall>k v. c = Some (k @ '':'' @ v) \<and> CHR '':'' \<notin> set k \<longrightarrow>
        headerEntries c = [(trim k, trim v)])
   \<and> (\<exists>xs ys. set xs \<subseteq> set whiteSpaces \<and> set ys \<subseteq> set whiteSpaces
         \<and> s = concat xs @ trim s @ concat ys)
   \<and> (\<forall>w \<in> set whiteSpaces. \<not> prefix w (trim s) \<and> \<not> suffix w (trim s))
   \<and> (captured b = Some r \<and> \<not> isGoogle r
        \<and> fst (serialize P cfg b url isMobile False) = Inr res \<longrightarrow>
        (\<exists>st content. res = SerializedResponse st
           (case querySelector (meta_name ''render:header'') (dom b) of
              None \<Rightarrow> []
            | Some element \<Rightarrow> headerEntries (getAttribute element ''content'')) content))"
proof -
  note 1 = headerEntries_length [of c]
  note 2 = headerEntries_empty [of c]
  have 3: "\<forall>k v. c = Some (k @ '':'' @ v) \<and> CHR '':'' \<notin> set k \<longrightarrow>
        headerEntries c = [(trim k, trim v)]"
    using headerEntries_cases(4) by blast
  note 4 = trim_decompose [of s]
  have 5: "\<forall>w \<in> set whiteSpaces. \<not> prefix w (trim s) \<and> \<not> suffix w (trim s)"
    using trim_ends by blast
  have 6: "captured b = Some r \<and> \<not> isGoogle r
        \<and> fst (serialize P cfg b url isMobile False) = Inr res \<longrightarrow>
        (\<exists>st content. res = SerializedResponse st
           (case querySelector (meta_name ''render:header'') (dom b) of
              None \<Rightarrow> []
            | Some element \<Rightarrow> headerEntries (getAttribute element ''content'')) content)"
    using serialize_headers [of b r P cfg url isMobile res] by blast
  from 1 2 3 4 5 6 show ?thesis by (intro conjI)
qed

text \<open>
  C8 as stated fails: the content \<^verbatim>\<open>:x\<close> is malformed, since it names no header,
  and yet gives a map with one entry, whose name is empty.
\<close>

theorem custom_header_empty_name_counterexample:
  "headerEntries (Some '':x'') = [([], ''x'')]
   \<and> map_sum id customHeaders_of
        (fst (serialize basic example_config (loaded (ok 200) (header_page '':x''))
                ''https://example.com/'' False False))
       = Inr (Some [([], ''x'')])"
  by code_simp

theorem custom_header_witness:
  "headerEntries (Some (''Location'' @ '':'' @ '' /new-path'')) = [(''Location'', ''/new-path'')]
   \<and> CHR '':'' \<notin> set ''Location''
   \<and> headerEntries (Some ''no colon here'') = []
   \<and> CHR '':'' \<notin> set ''no colon here''
   \<and> [CHR 0x20] \<in> set whiteSpaces
   \<and> \<not> prefix [CHR 0x20] (trim '' /new-path'')
   \<and> captured (loaded (ok 200) (header_page ''Location: /new-path'')) = Some (ok 200)
   \<and> \<not> isGoogle (ok 200)
   \<and> (\<exists>res st content.
         fst (serialize basic example_config (loaded (ok 200) (header_page ''Location: /new-path''))
                ''https://example.com/'' False False) = Inr res
         \<and> res = SerializedResponse st [(''Location'', ''/new-path'')] content)"
proof -
  let ?b = "loaded (ok 200) (header_page ''Location: /new-path'')"
  have k: "CHR '':'' \<notin> set ''Location''" and h: "CHR '':'' \<notin> set ''no colon here''"
    by simp_all
  have t: "trim ''Location'' = ''Location''" "trim '' /new-path'' = ''/new-path''"
    by code_simp+
  have sp: "[CHR 0x20] \<in> set whiteSpaces"
    by (simp add: whiteSpaces_def)
  have c: "captured ?b = Some (ok 200)"
    by (simp add: captured_def loaded_def)
  have g: "\<not> isGoogle (ok 200)"
    by (simp add: isGoogle_def ok_def)
  have "\<not> isl (fst (serialize basic example_config ?b ''https://example.com/'' False False))"
    by code_simp
  then obtain res
    where r: "fst (serialize basic example_config ?b ''https://example.com/'' False False) = Inr res"
    by (cases "fst (serialize basic example_config ?b ''https://example.com/'' False False)") simp_all
  have e: "(case querySelector (meta_name ''render:header'') (dom ?b) of
              None \<Rightarrow> []
            | Some element \<Rightarrow> headerEntries (getAttribute element ''content''))
           = [(''Location'', ''/new-path'')]"
    by code_simp
  from custom_header [where c = "Some (''Location'' @ '':'' @ '' /new-path'')"]
  have 1: "headerEntries (Some (''Location'' @ '':'' @ '' /new-path''))
          = [(trim ''Location'', trim '' /new-path'')]"
    using k by blast
  from custom_header [where c = "Some ''no colon here''"]
  have 2: "headerEntries (Some ''no colon here'') = []"
    using h by blast
  from custom_header [where s = "'' /new-path''"] sp
  have 4: "\<not> prefix [CHR 0x20] (trim '' /new-path'')"
    by blast
  from custom_header [where b = ?b and r = "ok 200" and P = basic and cfg = example_config
      and url = "''https://example.com/''" and isMobile = False and res = res] c g r
  have "\<exists>st content. res = SerializedResponse st
           (case querySelector (meta_name ''render:header'') (dom ?b) of
              None \<Rightarrow> []
            | Some element \<Rightarrow> headerEntries (getAttribute element ''content'')) content"
    by blast
  with e have 3: "\<exists>st content. res = SerializedResponse st [(''Location'', ''/new-path'')] content"
    by simp
  from 1 2 3 4 k h t sp c g r show ?thesis by auto
qed

section \<open>The sanitizer runs once\<close>

subsection \<open>What stripping leaves\<close>

lemma matches_Text [simp]: "\<not> matches sel (Text s)"
  by (induction sel) (auto simp: matches_def elim: matches_compound.elims)

lemma matches_tag_attrs:
  "matches sel (Element t as l cs) = matches sel (Element t as l' cs')"
  by (induction sel) (auto simp: matches_def elim: matches_compound.elims)

lemma clean_remove_matching:
  "\<not> matches sel n \<Longrightarrow> clean sel (remove_matching sel n)"
proof (induction n)
  case (Element t as l cs)
  from Element.prems have "\<not> matches sel (Element t as l (map (remove_matching sel) (filter (\<lambda>c. \<not> matches sel c) cs)))"
    using matches_tag_attrs by blast
  with Element.IH show ?case by auto
next
  case (Text s)
  then show ?case by simp
qed

lemma clean_remove_all: "c \<in> set (remove_all sel ns) \<Longrightarrow> clean sel c"
  by (auto simp: remove_all_def clean_remove_matching)

lemma remove_matching_clean: "clean sel n \<Longrightarrow> remove_matching sel n = n"
proof (induction n)
  case (Element t as l cs)
  have "\<forall>c \<in> set cs. \<not> matches sel c"
  proof
    fix c assume "c \<in> set cs"
    with Element.prems have "clean sel c" by simp
    then show "\<not> matches sel c" by (cases c) simp_all
  qed
  then have f: "filter (\<lambda>c. \<not> matches sel c) cs = cs"
    by (rule filter_True)
  have "map (remove_matching sel) cs = cs"
    using Element by (simp add: map_idI)
  with f show ?case by simp
next
  case (Text s)
  then show ?case by simp
qed

lemma clean_not_matches: "clean sel c \<Longrightarrow> \<not> matches sel c"
  by (cases c) simp_all

lemma remove_all_clean: "\<forall>c \<in> set ns. clean sel c \<Longrightarrow> remove_all sel ns = ns"
  by (simp add: remove_all_def clean_not_matches remove_matching_clean map_idI)

lemma clean_elements: "clean sel n \<longleftrightarrow> (\<forall>e \<in> set (elements n). \<not> matches sel e)"
  by (induction n) auto

lemma clean_querySelectorAll:
  "(\<forall>c \<in> set ns. clean sel c) \<longleftrightarrow> querySelectorAll sel ns = []"
  by (auto simp: querySelectorAll_def clean_elements filter_empty_conv)

subsection \<open>The base element keeps the document stripped\<close>

lemma hasTag_Element [simp]: "hasTag t (Element tag as l cs) = (tag = t)"
  by (simp add: hasTag_def)

lemma hasTag_Text [simp]: "\<not> hasTag t (Text s)"
  by (simp add: hasTag_def)

lemma matches_tag: "matches [Compound t []] n = hasTag t n"
  by (cases n) (simp_all add: matches_def)

lemma not_stripped_tag:
  "t \<noteq> ''script'' \<Longrightarrow> t \<noteq> ''link'' \<Longrightarrow> \<not> matches strip_selector (Element t as l cs)"
  by (simp add: matches_def strip_selector_def)

lemma clean_update_first:
  assumes "\<forall>c \<in> set ns. clean sel c" and "\<And>n. clean sel n \<Longrightarrow> clean sel (f n)"
  shows "\<forall>c \<in> set (update_first p f ns). clean sel c"
  using assms by (induction ns) auto

lemma clean_with_children:
  assumes "clean sel n"
    and "\<And>cs. \<forall>c \<in> set cs. clean sel c \<Longrightarrow> \<forall>c \<in> set (g cs). clean sel c"
  shows "clean sel (with_children g n)"
proof (cases n)
  case (Element t as l cs)
  with assms(1) have "\<not> matches sel (Element t as l (g cs))"
    using matches_tag_attrs [of sel t as l cs l "g cs"] by simp
  moreover from Element assms(1) have "\<forall>c \<in> set cs. clean sel c" by simp
  then have "\<forall>c \<in> set (g cs). clean sel c" by (rule assms(2))
  ultimately show ?thesis using Element by simp
next
  case (Text s)
  then show ?thesis by simp
qed

lemma clean_update_head:
  assumes "\<forall>c \<in> set d. clean sel c"
    and "\<And>cs. \<forall>c \<in> set cs. clean sel c \<Longrightarrow> \<forall>c \<in> set (g cs). clean sel c"
  shows "\<forall>c \<in> set (update_head g d). clean sel c"
  unfolding update_head_def
  by (intro clean_update_first clean_with_children assms) 

lemma clean_patch_first:
  assumes "patch_first p f cs = Some cs'" and "\<forall>c \<in> set cs. clean sel c"
    and "\<And>n. clean sel n \<Longrightarrow> p n \<Longrightarrow> clean sel (f n)"
  shows "\<forall>c \<in> set cs'. clean sel c"
  using assms
proof (induction p f cs arbitrary: cs' rule: patch_first.induct)
  case (1 p f)
  then show ?case by simp
next
  case (2 p f s ns)
  then show ?case by auto
next
  case (3 p f t as l cs ns)
  show ?case
  proof (cases "p (Element t as l cs)")
    case True
    with 3 show ?thesis by auto
  next
    case False
    show ?thesis
    proof (cases "patch_first p f cs")
      case None
      with False 3 show ?thesis by auto
    next
      case (Some cs0)
      with False 3 have "\<forall>c \<in> set cs0. clean sel c" by auto
      moreover have "\<not> matches sel (Element t as l cs0)"
        using "3.prems"(2) matches_tag_attrs [of sel t as l cs l cs0] by simp
      ultimately show ?thesis using False Some 3 by auto
    qed
  qed
qed

lemma clean_setAttribute_base:
  "clean strip_selector n \<Longrightarrow> hasTag ''base'' n \<Longrightarrow> clean strip_selector (setAttribute n a v)"
  by (cases n) (simp_all add: not_stripped_tag)

lemma clean_injectBaseHref:
  assumes "injectBaseHref origin d = Inr d'" and "\<forall>c \<in> set d. clean strip_selector c"
  shows "\<forall>c \<in> set d'. clean strip_selector c"
proof -
  from assms(1) obtain head where h: "document_head d = Some head"
    by (auto simp: injectBaseHref_def split: option.splits)
  show ?thesis
  proof (cases "querySelectorAll [Compound ''base'' []] (childNodes head)")
    case Nil
    with h assms(1)
    have d': "d' = update_head (\<lambda>cs. setAttribute (createElement ''base'') ''href'' origin # cs) d"
      by (simp add: injectBaseHref_def)
    have "clean strip_selector (setAttribute (createElement ''base'') ''href'' origin)"
      by (simp add: createElement_def not_stripped_tag)
    then show ?thesis unfolding d'
      by (intro clean_update_head assms(2)) simp
  next
    case (Cons b0 bs)
    show ?thesis
    proof (cases "startsWith (orEmpty (getAttribute b0 ''href'')) ''/''")
      case False
      with h Cons assms show ?thesis by (simp add: injectBaseHref_def)
    next
      case True
      let ?f = "\<lambda>b. setAttribute b ''href'' (origin @ orEmpty (getAttribute b0 ''href''))"
      let ?g = "\<lambda>cs. case patch_first (hasTag ''base'') ?f cs of None \<Rightarrow> cs | Some cs' \<Rightarrow> cs'"
      from h Cons True assms(1) have d': "d' = update_head ?g d"
        by (simp add: injectBaseHref_def)
      have "\<forall>c \<in> set (?g cs). clean strip_selector c" if "\<forall>c \<in> set cs. clean strip_selector c" for cs
      proof (cases "patch_first (hasTag ''base'') ?f cs")
        case None
        with that show ?thesis by simp
      next
        case (Some cs')
        from clean_patch_first [OF Some that] clean_setAttribute_base
        show ?thesis using Some by simp
      qed
      then show ?thesis unfolding d'
        by (intro clean_update_head assms(2)) 
    qed
  qed
qed

subsection \<open>The head and its first base after the injection\<close>

lemma find_update_first:
  "find p xs = Some x \<Longrightarrow> p (f x) \<Longrightarrow> find p (update_first p f xs) = Some (f x)"
  by (induction xs) (auto split: if_splits)

lemma isElement_with_children: "isElement (with_children g n) = isElement n"
  by (cases n) simp_all

lemma hasTag_with_children: "hasTag t (with_children g n) = hasTag t n"
  by (cases n) simp_all

lemma childNodes_with_children:
  "isElement n \<Longrightarrow> childNodes (with_children g n) = g (childNodes n)"
  by (cases n) simp_all

lemma hasTag_isElement: "hasTag t n \<Longrightarrow> isElement n"
  by (cases n) simp_all

lemma document_head_update_head:
  assumes "document_head d = Some head"
  shows "document_head (update_head g d) = Some (with_children g head)"
proof -
  from assms obtain r where r: "find isElement d = Some r" and html: "hasTag ''html'' r"
    and hd: "find (hasTag ''head'') (childNodes r) = Some head"
    by (auto simp: document_head_def split: option.splits if_splits)
  let ?F = "with_children (update_first (hasTag ''head'') (with_children g))"
  from r have e: "isElement r" by (auto simp: find_Some_iff)
  from hd have "hasTag ''head'' head" by (auto simp: find_Some_iff)
  then have "hasTag ''head'' (with_children g head)" by (simp add: hasTag_with_children)
  with hd have 1: "find (hasTag ''head'') (update_first (hasTag ''head'') (with_children g) (childNodes r))
      = Some (with_children g head)"
    by (rule find_update_first)
  from e have "isElement (?F r)" by (simp add: isElement_with_children)
  with r have 2: "find isElement (update_first isElement ?F d) = Some (?F r)"
    by (rule find_update_first)
  from html have 3: "hasTag ''html'' (?F r)" by (simp add: hasTag_with_children)
  from e have 4: "childNodes (?F r) = update_first (hasTag ''head'') (with_children g) (childNodes r)"
    by (rule childNodes_with_children)
  from 1 2 3 4 show ?thesis
    by (simp add: document_head_def update_head_def)
qed

lemma document_head_Element: "document_head d = Some head \<Longrightarrow> isElement head"
  by (auto simp: document_head_def find_Some_iff hasTag_isElement split: option.splits if_splits)

lemma elements_setAttribute:
  "hasTag t n \<Longrightarrow> elements (setAttribute n a v) = setAttribute n a v # concat (map elements (childNodes n))"
  by (cases n) simp_all

lemma hasTag_setAttribute: "hasTag t (setAttribute n a v) = hasTag t n"
  by (cases n) simp_all

lemma patch_first_None:
  "filter (hasTag t) (concat (map elements cs)) = [] \<Longrightarrow> patch_first (hasTag t) f cs = None"
proof (induction "hasTag t" f cs rule: patch_first.induct)
  case (1 f)
  then show ?case by simp
next
  case (2 f s ns)
  then show ?case by simp
next
  case (3 f tag as l cs ns)
  then show ?case by (auto split: if_splits)
qed

lemma patch_first_Some:
  assumes "filter (hasTag t) (concat (map elements cs)) = b0 # bs"
  shows "\<exists>cs'. patch_first (hasTag t) (\<lambda>b. setAttribute b a v) cs = Some cs'
           \<and> filter (hasTag t) (concat (map elements cs')) = setAttribute b0 a v # bs"
  using assms
proof (induction "hasTag t" "\<lambda>b. setAttribute b a v" cs arbitrary: b0 bs rule: patch_first.induct)
  case 1
  then show ?case by simp
next
  case (2 s ns)
  then show ?case by auto
next
  case (3 tag as l cs ns)
  show ?case
  proof (cases "tag = t")
    case True
    with "3.prems" show ?thesis by auto
  next
    case False
    show ?thesis
    proof (cases "filter (hasTag t) (concat (map elements cs))")
      case Nil
      then have n: "patch_first (hasTag t) (\<lambda>b. setAttribute b a v) cs = None"
        by (rule patch_first_None)
      from Nil False "3.prems" have "filter (hasTag t) (concat (map elements ns)) = b0 # bs"
        by simp
      with "3.hyps"(2) [of b0 bs] False n
      obtain ns' where "patch_first (hasTag t) (\<lambda>b. setAttribute b a v) ns = Some ns'"
        and "filter (hasTag t) (concat (map elements ns')) = setAttribute b0 a v # bs"
        by auto
      with False n Nil show ?thesis by simp
    next
      case (Cons c0 cs0)
      with False "3.prems" have b0: "b0 = c0" and bs: "bs = cs0 @ filter (hasTag t) (concat (map elements ns))"
        by simp_all
      from "3.hyps"(1) [of c0 cs0] False Cons
      obtain cs' where "patch_first (hasTag t) (\<lambda>b. setAttribute b a v) cs = Some cs'"
        and "filter (hasTag t) (concat (map elements cs')) = setAttribute c0 a v # cs0"
        by auto
      with False b0 bs show ?thesis by simp
    qed
  qed
qed

lemma getAttribute_setAttribute:
  "isElement n \<Longrightarrow> getAttribute (setAttribute n a v) a = Some v"
proof (cases n)
  case (Element t as l cs)
  have "map_of (setAttr as a v) a = Some v"
    by (induction as a v rule: setAttr.induct) simp_all
  with Element show ?thesis by (simp add: getAttribute_def)
next
  case (Text s)
  assume "isElement n"
  with Text show ?thesis by simp
qed

lemma startsWith_append:
  "origin \<noteq> [] \<Longrightarrow> \<not> startsWith origin ''/'' \<Longrightarrow> \<not> startsWith (origin @ e) ''/''"
  by (cases origin) (simp_all add: startsWith_def)

lemma base_selected:
  "querySelectorAll [Compound ''base'' []] ns = filter (hasTag ''base'') (concat (map elements ns))"
  by (simp add: querySelectorAll_def matches_tag [abs_def])

lemma injectBaseHref_again:
  assumes inj: "injectBaseHref origin d = Inr d'"
    and ne: "origin \<noteq> []" and ns: "\<not> startsWith origin ''/''"
  shows "injectBaseHref origin d' = Inr d'
     \<and> (\<exists>head b0 bs. document_head d' = Some head
           \<and> querySelectorAll [Compound ''base'' []] (childNodes head) = b0 # bs
           \<and> \<not> startsWith (orEmpty (getAttribute b0 ''href'')) ''/'')"
proof -
  from inj obtain head where h: "document_head d = Some head"
    by (auto simp: injectBaseHref_def split: option.splits)
  then have eh: "isElement head" by (rule document_head_Element)
  show ?thesis
  proof (cases "querySelectorAll [Compound ''base'' []] (childNodes head)")
    case Nil
    let ?base = "setAttribute (createElement ''base'') ''href'' origin"
    from Nil h inj have d': "d' = update_head (\<lambda>cs. ?base # cs) d"
      by (simp add: injectBaseHref_def)
    from h have h': "document_head d' = Some (with_children (\<lambda>cs. ?base # cs) head)"
      unfolding d' by (rule document_head_update_head)
    from eh have c: "childNodes (with_children (\<lambda>cs. ?base # cs) head) = ?base # childNodes head"
      by (rule childNodes_with_children)
    from Nil have q: "querySelectorAll [Compound ''base'' []] (?base # childNodes head) = [?base]"
      by (simp add: base_selected createElement_def)
    have a: "orEmpty (getAttribute ?base ''href'') = origin"
      by (simp add: createElement_def getAttribute_def orEmpty_def)
    from h' c q a ns show ?thesis
      by (simp add: injectBaseHref_def)
  next
    case (Cons b0 bs)
    show ?thesis
    proof (cases "startsWith (orEmpty (getAttribute b0 ''href'')) ''/''")
      case False
      with h Cons inj have "d' = d" by (simp add: injectBaseHref_def)
      with h Cons False inj show ?thesis by simp
    next
      case True
      let ?v = "origin @ orEmpty (getAttribute b0 ''href'')"
      let ?f = "\<lambda>b. setAttribute b ''href'' ?v"
      let ?g = "\<lambda>cs. case patch_first (hasTag ''base'') ?f cs of None \<Rightarrow> cs | Some cs' \<Rightarrow> cs'"
      from h Cons True inj have d': "d' = update_head ?g d"
        by (simp add: injectBaseHref_def)
      from h have h': "document_head d' = Some (with_children ?g head)"
        unfolding d' by (rule document_head_update_head)
      from eh have c: "childNodes (with_children ?g head) = ?g (childNodes head)"
        by (rule childNodes_with_children)
      from Cons have "filter (hasTag ''base'') (concat (map elements (childNodes head))) = b0 # bs"
        by (simp add: base_selected)
      from patch_first_Some [OF this, of "''href''" ?v]
      obtain cs' where p: "patch_first (hasTag ''base'') ?f (childNodes head) = Some cs'"
        and f: "filter (hasTag ''base'') (concat (map elements cs')) = setAttribute b0 ''href'' ?v # bs"
        by blast
      from p have g: "?g (childNodes head) = cs'" by simp
      from f have q: "querySelectorAll [Compound ''base'' []] cs' = setAttribute b0 ''href'' ?v # bs"
        by (simp add: base_selected)
      from Cons have "b0 \<in> set (filter (hasTag ''base'') (concat (map elements (childNodes head))))"
        by (simp add: base_selected)
      then have "isElement b0" by (auto dest: hasTag_isElement)
      then have a: "orEmpty (getAttribute (setAttribute b0 ''href'' ?v) ''href'') = ?v"
        by (simp add: getAttribute_setAttribute orEmpty_def)
      from ne ns have n: "\<not> startsWith ?v ''/''" by (rule startsWith_append)
      from h' c g q a n show ?thesis
        by (simp add: injectBaseHref_def)
    qed
  qed
qed

subsection \<open>The origin of the request\<close>

lemma toLowerChar_not_slash:
  assumes "isProtocolChar c"
  shows "toLowerChar c \<noteq> CHR ''/''"
proof
  assume "toLowerChar c = CHR ''/''"
  then have "(of_char (toLowerChar c) :: nat) = of_char (CHR ''/'')" by simp
  then have l: "(of_char (toLowerChar c) :: nat) = 47" by simp
  show False
  proof (cases "65 \<le> (of_char c :: nat) \<and> (of_char c :: nat) \<le> 90")
    case True
    then have "(of_char (toLowerChar c) :: nat) = (of_char c + 32) mod 256"
      by (simp add: toLowerChar_def Let_def)
    with True l show False by simp
  next
    case False
    then have "toLowerChar c = c" by (auto simp: toLowerChar_def Let_def)
    with l have "(of_char c :: nat) = 47" by simp
    moreover from this have "c \<noteq> CHR ''.''" "c \<noteq> CHR ''+''" "c \<noteq> CHR ''-''" by auto
    ultimately show False using assms by (simp add: isProtocolChar_def Let_def)
  qed
qed

lemma request_origin_shape:
  "request_origin P requestUrl \<noteq> [] \<and> \<not> startsWith (request_origin P requestUrl) ''/''"
proof (cases "url_parse_protocol requestUrl")
  case None
  then show ?thesis by (simp add: request_origin_def template_def startsWith_def)
next
  case (Some p)
  then obtain q where q: "q \<noteq> []" and qs: "q = takeWhile isProtocolChar (trim requestUrl)"
    and p: "p = toLowerCase q @ '':''"
    by (auto simp: url_parse_protocol_def Let_def split: if_splits)
  from q obtain c cs where ccs: "q = c # cs" by (cases q) auto
  with qs have "c \<in> set (takeWhile isProtocolChar (trim requestUrl))"
    by (metis list.set_intros(1))
  then have "isProtocolChar c" by (rule set_takeWhileD [THEN conjunct2])
  then have "toLowerChar c \<noteq> CHR ''/''" by (rule toLowerChar_not_slash)
  with Some p ccs show ?thesis
    by (simp add: request_origin_def template_def startsWith_def toLowerCase_def)
qed

text \<open>
  C9. Let \<open>d'\<close> be the document one pass of the sanitizer leaves, with the origin
  \<^verbatim>\<open>serialize\<close> builds from the requested URL. Then stripping \<open>d'\<close> changes
  nothing, injecting the base into \<open>d'\<close> changes nothing, and so a second pass returns
  \<open>d'\<close>: no element of \<open>d'\<close> is matched by the selector of \<^verbatim>\<open>stripPage\<close>, and the
  first \<^verbatim>\<open>base\<close> of its head has an \<^verbatim>\<open>href\<close> that does not start with a slash.
\<close>

theorem sanitizer_idempotent:
  "sanitize (request_origin P requestUrl) d = Inr d' \<longrightarrow>
     stripPage d' = d'
     \<and> injectBaseHref (request_origin P requestUrl) d' = Inr d'
     \<and> sanitize (request_origin P requestUrl) d' = Inr d'
     \<and> querySelectorAll strip_selector d' = []
     \<and> (\<exists>head b0 bs. document_head d' = Some head
           \<and> querySelectorAll [Compound ''base'' []] (childNodes head) = b0 # bs
           \<and> \<not> startsWith (orEmpty (getAttribute b0 ''href'')) ''/'')"
proof
  let ?o = "request_origin P requestUrl"
  assume "sanitize ?o d = Inr d'"
  then have inj: "injectBaseHref ?o (stripPage d) = Inr d'"
    by (simp add: sanitize_def)
  have "\<forall>c \<in> set (stripPage d). clean strip_selector c"
    by (simp add: stripPage_def clean_remove_all)
  with inj have cl: "\<forall>c \<in> set d'. clean strip_selector c"
    by (rule clean_injectBaseHref)
  then have s: "stripPage d' = d'"
    by (simp add: stripPage_def remove_all_clean)
  from cl have q: "querySelectorAll strip_selector d' = []"
    by (simp add: clean_querySelectorAll)
  from request_origin_shape [of P requestUrl]
  have ne: "?o \<noteq> []" and ns: "\<not> startsWith ?o ''/''" by simp_all
  note again = injectBaseHref_again [OF inj ne ns]
  from again s have "sanitize ?o d' = Inr d'"
    by (simp add: sanitize_def)
  with s q again show "stripPage d' = d'
     \<and> injectBaseHref ?o d' = Inr d'
     \<and> sanitize ?o d' = Inr d'
     \<and> querySelectorAll strip_selector d' = []
     \<and> (\<exists>head b0 bs. document_head d' = Some head
           \<and> querySelectorAll [Compound ''base'' []] (childNodes head) = b0 # bs
           \<and> \<not> startsWith (orEmpty (getAttribute b0 ''href'')) ''/'')"
    by blast
qed

theorem sanitizer_idempotent_witness:
  "sanitize (request_origin basic ''https://www.example.com/page'') based_page
     = Inr (page [el ''base'' [(''href'', ''https://www.example.com/app/'')] []]
                 [el ''script'' [(''type'', ''application/json'')] [Text ''{}'']])
   \<and> sanitize (request_origin basic ''https://www.example.com/page'')
        (page [el ''base'' [(''href'', ''https://www.example.com/app/'')] []]
              [el ''script'' [(''type'', ''application/json'')] [Text ''{}'']])
     = Inr (page [el ''base'' [(''href'', ''https://www.example.com/app/'')] []]
                 [el ''script'' [(''type'', ''application/json'')] [Text ''{}'']])"
proof -
  have h: "sanitize (request_origin basic ''https://www.example.com/page'') based_page
     = Inr (page [el ''base'' [(''href'', ''https://www.example.com/app/'')] []]
                 [el ''script'' [(''type'', ''application/json'')] [Text ''{}'']])"
    by code_simp
  from sanitizer_idempotent [of basic "''https://www.example.com/page''" based_page
      "page [el ''base'' [(''href'', ''https://www.example.com/app/'')] []]
            [el ''script'' [(''type'', ''application/json'')] [Text ''{}'']]"] h
  show ?thesis by blast
qed

end
